theory Spec2Isabelle
  imports Main
begin

section \<open>Python strings and exceptions\<close>

text \<open>
  A Python \<open>str\<close> is a sequence of Unicode code points, and \<open>len\<close> counts code points.
  A character is therefore modelled by its code point and a string by the list of its
  code points. \<open>lit\<close> writes an ASCII literal.
\<close>

type_synonym pychar = int
type_synonym pystr = "pychar list"

definition lit :: "string \<Rightarrow> pystr" where
  "lit cs = map of_char cs"

text \<open>
  The exceptions the program can raise. The text of the exceptions raised by the program
  itself is the source's; the text of exceptions raised inside the standard library is
  abridged (CPython interpolates the offending value into some of them).
\<close>

datatype error = ValueError string | OverflowError string

subsection \<open>Unicode digit classes\<close>

text \<open>
  \<open>str.isdigit\<close> holds of a character whose Unicode property Numeric\_Type is Decimal or
  Digit; the regular expression class \<open>\d\<close> and \<open>int\<close> accept the characters whose
  Numeric\_Type is Decimal (general category Nd). The tables are those of the Unicode
  Character Database 14.0.0, as closed ranges of code points. Every range of decimal
  characters is a run of the digits 0 to 9 in order (the last one holds five such runs).
\<close>

definition unicode_decimal_ranges :: "(int \<times> int) list" where
  "unicode_decimal_ranges = [
    (48, 57), (1632, 1641), (1776, 1785), (1984, 1993), (2406, 2415), (2534, 2543),
    (2662, 2671), (2790, 2799), (2918, 2927), (3046, 3055), (3174, 3183), (3302, 3311),
    (3430, 3439), (3558, 3567), (3664, 3673), (3792, 3801), (3872, 3881), (4160, 4169),
    (4240, 4249), (6112, 6121), (6160, 6169), (6470, 6479), (6608, 6617), (6784, 6793),
    (6800, 6809), (6992, 7001), (7088, 7097), (7232, 7241), (7248, 7257), (42528, 42537),
    (43216, 43225), (43264, 43273), (43472, 43481), (43504, 43513), (43600, 43609),
    (44016, 44025), (65296, 65305), (66720, 66729), (68912, 68921), (69734, 69743),
    (69872, 69881), (69942, 69951), (70096, 70105), (70384, 70393), (70736, 70745),
    (70864, 70873), (71248, 71257), (71360, 71369), (71472, 71481), (71904, 71913),
    (72016, 72025), (72784, 72793), (73040, 73049), (73120, 73129), (92768, 92777),
    (92864, 92873), (93008, 93017), (120782, 120831), (123200, 123209), (123632, 123641),
    (125264, 125273), (130032, 130041)]"

definition unicode_digit_ranges :: "(int \<times> int) list" where
  \<comment> \<open>Numeric\_Type Digit: superscripts, subscripts, circled digits and the like.\<close>
  "unicode_digit_ranges = [
    (178, 179), (185, 185), (4969, 4977), (6618, 6618), (8304, 8304), (8308, 8313),
    (8320, 8329), (9312, 9320), (9332, 9340), (9352, 9360), (9450, 9450), (9461, 9469),
    (9471, 9471), (10102, 10110), (10112, 10120), (10122, 10130), (68160, 68163),
    (69216, 69224), (69714, 69722), (127232, 127242)]"

fun range_of :: "(int \<times> int) list \<Rightarrow> int \<Rightarrow> (int \<times> int) option" where
  "range_of [] c = None"
| "range_of ((lo, hi) # rs) c = (if lo \<le> c \<and> c \<le> hi then Some (lo, hi) else range_of rs c)"

definition char_isdecimal :: "pychar \<Rightarrow> bool" where
  "char_isdecimal c = (range_of unicode_decimal_ranges c \<noteq> None)"

definition char_isdigit :: "pychar \<Rightarrow> bool" where
  "char_isdigit c = (char_isdecimal c \<or> range_of unicode_digit_ranges c \<noteq> None)"

definition char_decimal :: "pychar \<Rightarrow> int" where
  \<comment> \<open>the value of a decimal character, as \<open>int\<close> reads it\<close>
  "char_decimal c = (case range_of unicode_decimal_ranges c of
                       Some (lo, hi) \<Rightarrow> (c - lo) mod 10 | None \<Rightarrow> 0)"

definition isdigit :: "pystr \<Rightarrow> bool" where
  \<comment> \<open>\<open>str.isdigit\<close>: at least one character, and every character is a digit\<close>
  "isdigit s = (s \<noteq> [] \<and> list_all char_isdigit s)"

section \<open>Fields\<close>

text \<open>
  A \<open>Field\<close> object holds one attribute, \<open>value\<close>, and is modelled by that value.
  A constructor either returns the object or raises.
\<close>

definition Name :: "pystr \<Rightarrow> error + pystr" where
  \<comment> \<open>\<open>class Name(Field): pass\<close>: \<open>Field.__init__\<close> stores the value unchecked\<close>
  "Name v = Inr v"

definition Phone :: "pystr \<Rightarrow> error + pystr" where
  "Phone v = (if \<not> isdigit v \<or> length v \<noteq> 10
              then Inl (ValueError ''Phone number must be 10 digits'')
              else Inr v)"

section \<open>The standard library's calendar\<close>

text \<open>
  The \<open>datetime.date\<close> class: a date of the proleptic Gregorian calendar with a year
  from 1 to 9999. The functions follow CPython's \<open>Lib/datetime.py\<close>.
\<close>

record date =
  year :: int
  month :: int
  day :: int

definition MAXORDINAL :: int where
  "MAXORDINAL = 3652059"

definition DAYS_IN_MONTH :: "int list" where
  "DAYS_IN_MONTH = [-1, 31, 28, 31, 30, 31, 30, 31, 31, 30, 31, 30, 31]"

definition DAYS_BEFORE_MONTH :: "int list" where
  "DAYS_BEFORE_MONTH = [-1, 0, 31, 59, 90, 120, 151, 181, 212, 243, 273, 304, 334]"

definition is_leap :: "int \<Rightarrow> bool" where
  "is_leap y = (y mod 4 = 0 \<and> (y mod 100 \<noteq> 0 \<or> y mod 400 = 0))"

definition days_before_year :: "int \<Rightarrow> int" where
  "days_before_year yr = (let y = yr - 1 in y * 365 + y div 4 - y div 100 + y div 400)"

definition days_in_month :: "int \<Rightarrow> int \<Rightarrow> int" where
  "days_in_month y m = (if m = 2 \<and> is_leap y then 29 else DAYS_IN_MONTH ! nat m)"

definition days_before_month :: "int \<Rightarrow> int \<Rightarrow> int" where
  "days_before_month y m = DAYS_BEFORE_MONTH ! nat m + (if m > 2 \<and> is_leap y then 1 else 0)"

definition ymd2ord :: "int \<Rightarrow> int \<Rightarrow> int \<Rightarrow> int" where
  "ymd2ord y m d = days_before_year y + days_before_month y m + d"

definition month_day_of :: "bool \<Rightarrow> int \<Rightarrow> int \<times> int" where
  \<comment> \<open>the last step of \<open>_ord2ymd\<close>, which the source writes inline: the month and the day
      of the \<open>n\<close>-th day (from 0) of a year, found from an estimate of the month that is
      exact or one too large\<close>
  "month_day_of leapyear n =
     (let mo = (n + 50) div 32;
          preceding = DAYS_BEFORE_MONTH ! nat mo + (if mo > 2 \<and> leapyear then 1 else 0)
      in if preceding > n
         then let mo = mo - 1;
                  preceding = preceding
                    - (DAYS_IN_MONTH ! nat mo + (if mo = 2 \<and> leapyear then 1 else 0))
              in (mo, n - preceding + 1)
         else (mo, n - preceding + 1))"

definition ord2ymd :: "int \<Rightarrow> int \<times> int \<times> int" where
  "ord2ymd n0 =
     (let n = n0 - 1;
          n400 = n div 146097; n = n mod 146097;
          n100 = n div 36524; n = n mod 36524;
          n4 = n div 1461; n = n mod 1461;
          n1 = n div 365; n = n mod 365;
          yr = n400 * 400 + 1 + n100 * 100 + n4 * 4 + n1
      in if n1 = 4 \<or> n100 = 4 then (yr - 1, 12, 31)
         else
           let leapyear = (n1 = 3 \<and> (n4 \<noteq> 24 \<or> n100 = 3))
           in (case month_day_of leapyear n of (mo, dd) \<Rightarrow> (yr, mo, dd)))"

definition date_new :: "int \<Rightarrow> int \<Rightarrow> int \<Rightarrow> error + date" where
  \<comment> \<open>the constructor \<open>date(year, month, day)\<close>, with the check of its fields\<close>
  "date_new y m d =
     (if \<not> (1 \<le> y \<and> y \<le> 9999) then Inl (ValueError ''year is out of range'')
      else if \<not> (1 \<le> m \<and> m \<le> 12) then Inl (ValueError ''month must be in 1..12'')
      else if \<not> (1 \<le> d \<and> d \<le> days_in_month y m)
        then Inl (ValueError ''day is out of range for month'')
      else Inr \<lparr>year = y, month = m, day = d\<rparr>)"

definition replace_year :: "date \<Rightarrow> int \<Rightarrow> error + date" where
  \<comment> \<open>\<open>self.replace(year=y)\<close>\<close>
  "replace_year self y = date_new y (month self) (day self)"

definition toordinal :: "date \<Rightarrow> int" where
  "toordinal self = ymd2ord (year self) (month self) (day self)"

definition fromordinal :: "int \<Rightarrow> date" where
  "fromordinal n = (case ord2ymd n of (y, m, d) \<Rightarrow> \<lparr>year = y, month = m, day = d\<rparr>)"

definition weekday :: "date \<Rightarrow> int" where
  \<comment> \<open>Monday is 0, Sunday is 6\<close>
  "weekday self = (toordinal self + 6) mod 7"

definition date_lt :: "date \<Rightarrow> date \<Rightarrow> bool" where
  \<comment> \<open>\<open>self < other\<close>: the tuples (year, month, day) compared\<close>
  "date_lt a b = (year a < year b \<or> (year a = year b \<and>
                    (month a < month b \<or> (month a = month b \<and> day a < day b))))"

definition sub_days :: "date \<Rightarrow> date \<Rightarrow> int" where
  \<comment> \<open>\<open>(self - other).days\<close>\<close>
  "sub_days a b = toordinal a - toordinal b"

definition add_timedelta :: "date \<Rightarrow> int \<Rightarrow> error + date" where
  \<comment> \<open>\<open>self + timedelta(days=n)\<close>\<close>
  "add_timedelta self n =
     (let o_new = toordinal self + n
      in if 0 < o_new \<and> o_new \<le> MAXORDINAL then Inr (fromordinal o_new)
         else Inl (OverflowError ''date value out of range''))"

function dec_str :: "nat \<Rightarrow> pystr" where
  "dec_str n = (if n < 10 then [48 + int n] else dec_str (n div 10) @ [48 + int (n mod 10)])"
  by pat_completeness auto
termination
  by (relation "measure id") auto

declare dec_str.simps [simp del]

definition zfill2 :: "nat \<Rightarrow> pystr" where
  "zfill2 n = (if n < 10 then 48 # dec_str n else dec_str n)"

definition strftime :: "date \<Rightarrow> pystr" where
  \<comment> \<open>\<open>self.strftime("%d.%m.%Y")\<close>. The C library writes \<open>%d\<close> and \<open>%m\<close> with two digits;
      glibc writes \<open>%Y\<close> unpadded, other platforms with four digits, which is the same
      from the year 1000 on.\<close>
  "strftime self = zfill2 (nat (day self)) @ lit ''.'' @ zfill2 (nat (month self)) @ lit ''.''
                     @ dec_str (nat (year self))"

subsection \<open>Parsing a date\<close>

text \<open>
  \<open>datetime.strptime(s, "%d.%m.%Y")\<close> compiles the format into the regular expression
  \<^verbatim>\<open>(?P<d>3[0-1]|[1-2]\d|0[1-9]|[1-9]| [1-9])\.(?P<m>1[0-2]|0[1-9]|[1-9])\.(?P<Y>\d\d\d\d)\<close>
  and matches it at the start of the string. A matcher returns the matches it can
  find in the order in which the backtracking engine tries them: the text matched and
  the rest of the input.
\<close>

type_synonym matcher = "pystr \<Rightarrow> (pystr \<times> pystr) list"

definition cls :: "(pychar \<Rightarrow> bool) \<Rightarrow> matcher" where
  "cls P s = (case s of [] \<Rightarrow> [] | c # r \<Rightarrow> if P c then [([c], r)] else [])"

definition chr :: "pychar \<Rightarrow> matcher" where
  "chr a = cls (\<lambda>c. c = a)"

definition rng :: "pychar \<Rightarrow> pychar \<Rightarrow> matcher" where
  "rng lo hi = cls (\<lambda>c. lo \<le> c \<and> c \<le> hi)"

definition re_seq :: "matcher \<Rightarrow> matcher \<Rightarrow> matcher" where
  "re_seq p q s = concat (map (\<lambda>(a, r1). map (\<lambda>(b, r2). (a @ b, r2)) (q r1)) (p s))"

definition re_alt :: "matcher \<Rightarrow> matcher \<Rightarrow> matcher" where
  "re_alt p q s = p s @ q s"

definition re_d :: matcher where
  "re_d = re_alt (re_seq (chr 51) (rng 48 49))
         (re_alt (re_seq (rng 49 50) (cls char_isdecimal))
         (re_alt (re_seq (chr 48) (rng 49 57))
         (re_alt (rng 49 57)
                 (re_seq (chr 32) (rng 49 57)))))"

definition re_m :: matcher where
  "re_m = re_alt (re_seq (chr 49) (rng 48 50))
         (re_alt (re_seq (chr 48) (rng 49 57))
                 (rng 49 57))"

definition re_Y :: matcher where
  "re_Y = re_seq (cls char_isdecimal) (re_seq (cls char_isdecimal)
            (re_seq (cls char_isdecimal) (cls char_isdecimal)))"

definition format_regex_match :: "pystr \<Rightarrow> (pystr \<times> pystr \<times> pystr \<times> pystr) option" where
  \<comment> \<open>the groups d, m and Y of the first match, and the input left after it\<close>
  "format_regex_match s =
     (case concat (map (\<lambda>(d, r1). concat (map (\<lambda>(dot1, r2). concat (map (\<lambda>(m, r3).
             concat (map (\<lambda>(dot2, r4). map (\<lambda>(y, r5). (d, m, y, r5)) (re_Y r4))
               (chr 46 r3))) (re_m r2))) (chr 46 r1))) (re_d s)) of
        [] \<Rightarrow> None
      | found # _ \<Rightarrow> Some found)"

definition py_int :: "pystr \<Rightarrow> error + int" where
  \<comment> \<open>\<open>int(s)\<close> on the text of a group: blanks around the number are dropped, and the
      decimal characters of any script are read\<close>
  "py_int s =
     (let t = rev (dropWhile (\<lambda>c. c = 32) (rev (dropWhile (\<lambda>c. c = 32) s)))
      in if t = [] \<or> \<not> list_all char_isdecimal t
         then Inl (ValueError ''invalid literal for int() with base 10'')
         else Inr (foldl (\<lambda>acc c. 10 * acc + char_decimal c) 0 t))"

definition strptime :: "pystr \<Rightarrow> error + date" where
  \<comment> \<open>\<open>datetime.strptime(data_string, "%d.%m.%Y").date()\<close>\<close>
  "strptime data_string =
     (case format_regex_match data_string of
        None \<Rightarrow> Inl (ValueError ''time data does not match format'')
      | Some (d, m, y, rest) \<Rightarrow>
          if rest \<noteq> [] then Inl (ValueError ''unconverted data remains'')
          else (case py_int y of Inl e \<Rightarrow> Inl e | Inr yr \<Rightarrow>
               (case py_int m of Inl e \<Rightarrow> Inl e | Inr mo \<Rightarrow>
               (case py_int d of Inl e \<Rightarrow> Inl e | Inr dy \<Rightarrow> date_new yr mo dy))))"

definition Birthday :: "pystr \<Rightarrow> error + pystr" where
  "Birthday v =
     (case strptime v of
        Inl (ValueError msg) \<Rightarrow>
          Inl (ValueError ''Invalid date. Ensure the date is valid and in DD.MM.YYYY format'')
      | Inl (OverflowError msg) \<Rightarrow> Inl (OverflowError msg)
      | Inr d \<Rightarrow> Inr v)"

section \<open>Record\<close>

text \<open>
  A \<open>Record\<close> holds a \<open>Name\<close>, a list of \<open>Phone\<close> objects and a \<open>Birthday\<close> or
  \<open>None\<close>. A method that mutates the record returns the exception it raised, if any,
  together with the record as the call leaves it.
\<close>

record Record =
  name :: pystr
  phones :: "pystr list"
  birthday :: "pystr option"

definition Record_init :: "pystr \<Rightarrow> error + Record" where
  "Record_init nm =
     (case Name nm of
        Inl e \<Rightarrow> Inl e
      | Inr n \<Rightarrow> Inr \<lparr>name = n, phones = [], birthday = None\<rparr>)"

definition add_phone :: "Record \<Rightarrow> pystr \<Rightarrow> error option \<times> Record" where
  "add_phone self phone =
     (case Phone phone of
        Inl e \<Rightarrow> (Some e, self)
      | Inr p \<Rightarrow> (None, self\<lparr>phones := phones self @ [p]\<rparr>))"

text \<open>
  \<open>find_phone\<close> returns the \<open>Phone\<close> object itself. \<open>Field\<close> defines no \<open>__eq__\<close>, so
  objects are compared by identity, and \<open>list.remove\<close> removes the very object it is
  given. The model names the object by its position in the list.
\<close>

fun find_phone_in :: "pystr list \<Rightarrow> pystr \<Rightarrow> nat option" where
  "find_phone_in [] phone = None"
| "find_phone_in (ph # phs) phone =
     (if ph = phone then Some 0 else map_option Suc (find_phone_in phs phone))"

definition find_phone :: "Record \<Rightarrow> pystr \<Rightarrow> nat option" where
  "find_phone self phone = find_phone_in (phones self) phone"

definition list_remove_at :: "nat \<Rightarrow> 'a list \<Rightarrow> 'a list" where
  "list_remove_at i xs = take i xs @ drop (Suc i) xs"

definition remove_phone :: "Record \<Rightarrow> pystr \<Rightarrow> error option \<times> Record" where
  "remove_phone self phone =
     (case find_phone self phone of
        Some i \<Rightarrow> (None, self\<lparr>phones := list_remove_at i (phones self)\<rparr>)
      | None \<Rightarrow> (Some (ValueError ''Phone number not found''), self))"

definition edit_phone :: "Record \<Rightarrow> pystr \<Rightarrow> pystr \<Rightarrow> error option \<times> Record" where
  "edit_phone self old_phone new_phone =
     (case find_phone self old_phone of
        Some i \<Rightarrow>
          (case Phone new_phone of
             Inl e \<Rightarrow> (Some e, self)
           | Inr new_phone_obj \<Rightarrow>
               (None, self\<lparr>phones := list_remove_at i (phones self) @ [new_phone_obj]\<rparr>))
      | None \<Rightarrow> (Some (ValueError ''Old phone number not found''), self))"

definition Record_add_birthday :: "Record \<Rightarrow> pystr \<Rightarrow> error option \<times> Record" where
  "Record_add_birthday self b =
     (case Birthday b of
        Inl e \<Rightarrow> (Some e, self)
      | Inr v \<Rightarrow> (None, self\<lparr>birthday := Some v\<rparr>))"

fun join :: "pystr \<Rightarrow> pystr list \<Rightarrow> pystr" where
  "join sep [] = []"
| "join sep [x] = x"
| "join sep (x # y # ys) = x @ sep @ join sep (y # ys)"

definition Record_str :: "Record \<Rightarrow> pystr" where
  "Record_str self =
     (let phones_s = (if phones self \<noteq> [] then join (lit ''; '') (phones self)
                      else lit ''No phones'');
          birthday_s = (case birthday self of Some v \<Rightarrow> v | None \<Rightarrow> lit ''No birthday'')
      in lit ''Contact name: '' @ name self @ lit '', phones: '' @ phones_s
           @ lit '', birthday: '' @ birthday_s)"

section \<open>AddressBook\<close>

text \<open>
  The book is a \<open>UserDict\<close>: a dictionary from names to records that keeps its keys in
  the order of their first insertion. It is modelled by the list of its items in that
  order. Assigning to a key that is present replaces the value in place; a new key
  goes to the end.
\<close>

type_synonym AddressBook = "(pystr \<times> Record) list"

fun dict_setitem :: "('k \<times> 'v) list \<Rightarrow> 'k \<Rightarrow> 'v \<Rightarrow> ('k \<times> 'v) list" where
  "dict_setitem [] k v = [(k, v)]"
| "dict_setitem ((k', v') # kvs) k v =
     (if k' = k then (k, v) # kvs else (k', v') # dict_setitem kvs k v)"

fun dict_get :: "('k \<times> 'v) list \<Rightarrow> 'k \<Rightarrow> 'v option" where
  "dict_get [] k = None"
| "dict_get ((k', v') # kvs) k = (if k' = k then Some v' else dict_get kvs k)"

fun dict_delitem :: "('k \<times> 'v) list \<Rightarrow> 'k \<Rightarrow> ('k \<times> 'v) list" where
  "dict_delitem [] k = []"
| "dict_delitem ((k', v') # kvs) k = (if k' = k then kvs else (k', v') # dict_delitem kvs k)"

definition dict_contains :: "('k \<times> 'v) list \<Rightarrow> 'k \<Rightarrow> bool" where
  "dict_contains kvs k = (dict_get kvs k \<noteq> None)"

definition dict_values :: "('k \<times> 'v) list \<Rightarrow> 'v list" where
  "dict_values kvs = map snd kvs"

definition add_record :: "AddressBook \<Rightarrow> Record \<Rightarrow> AddressBook" where
  "add_record data record = dict_setitem data (name record) record"

definition AddressBook_find :: "AddressBook \<Rightarrow> pystr \<Rightarrow> Record option" where
  "AddressBook_find data nm = dict_get data nm"

definition AddressBook_delete :: "AddressBook \<Rightarrow> pystr \<Rightarrow> AddressBook" where
  "AddressBook_delete data nm = (if dict_contains data nm then dict_delitem data nm else data)"

definition AddressBook_str :: "AddressBook \<Rightarrow> pystr" where
  "AddressBook_str data = join (lit [CHR 0x0A]) (map Record_str (dict_values data))"

text \<open>
  \<open>get_upcoming_birthdays\<close> reads the clock; the date it reads is the parameter
  \<open>today\<close>. An item of the result is the dictionary with the keys \<open>"name"\<close> and
  \<open>"birthday"\<close>. The body of the loop is \<open>upcoming_item\<close>: the exception it raises, or
  the item it appends, if any. Its two steps are named: \<open>bday_this_year\<close> is the date
  the source computes under that name (the birthday moved to the year of \<open>today\<close>, and
  to the year after when that date is before \<open>today\<close>), and \<open>congratulation_date\<close> is
  the date it computes from it for an upcoming birthday.
\<close>

definition bday_this_year :: "date \<Rightarrow> date \<Rightarrow> error + date" where
  "bday_this_year today bday =
     (case replace_year bday (year today) of
        Inl e \<Rightarrow> Inl e
      | Inr this_year \<Rightarrow>
          if date_lt this_year today then replace_year this_year (year today + 1)
          else Inr this_year)"

definition congratulation_date :: "date \<Rightarrow> error + date" where
  "congratulation_date this_year =
     (if weekday this_year \<ge> 5  \<comment> \<open>Saturday (5) or Sunday (6)\<close>
      then let days_to_monday = 7 - weekday this_year
           in add_timedelta this_year days_to_monday
      else Inr this_year)"

definition upcoming_item :: "date \<Rightarrow> Record \<Rightarrow> error + (pystr \<times> pystr) list option" where
  "upcoming_item today record =
     (case birthday record of
        None \<Rightarrow> Inr None
      | Some v \<Rightarrow>
         (case strptime v of Inl e \<Rightarrow> Inl e | Inr bday \<Rightarrow>
         (case bday_this_year today bday of Inl e \<Rightarrow> Inl e | Inr this_year \<Rightarrow>
            let days_until = sub_days this_year today
            in if 0 \<le> days_until \<and> days_until \<le> 7
               then (case congratulation_date this_year of
                       Inl e \<Rightarrow> Inl e
                     | Inr congratulation \<Rightarrow>
                         Inr (Some [(lit ''name'', name record),
                                    (lit ''birthday'', strftime congratulation)]))
               else Inr None)))"

fun upcoming_loop ::
  "date \<Rightarrow> Record list \<Rightarrow> (pystr \<times> pystr) list list \<Rightarrow> error + (pystr \<times> pystr) list list"
where
  "upcoming_loop today [] upcoming = Inr upcoming"
| "upcoming_loop today (record # records) upcoming =
     (case upcoming_item today record of
        Inl e \<Rightarrow> Inl e
      | Inr None \<Rightarrow> upcoming_loop today records upcoming
      | Inr (Some item) \<Rightarrow> upcoming_loop today records (upcoming @ [item]))"

definition get_upcoming_birthdays :: "date \<Rightarrow> AddressBook \<Rightarrow> error + (pystr \<times> pystr) list list" where
  "get_upcoming_birthdays today data = upcoming_loop today (dict_values data) []"

section \<open>The specification's vocabulary\<close>

text \<open>
  The specification calls a phone number valid when it consists of exactly ten ASCII
  decimal digits, and asks of a book that it holds at most one record per name. In the
  list of items that models the dictionary this means: the keys are distinct, and every
  record is stored under its own name.
\<close>

definition ascii_decimal_digits10 :: "pystr \<Rightarrow> bool" where
  "ascii_decimal_digits10 s = (length s = 10 \<and> list_all (\<lambda>c. 48 \<le> c \<and> c \<le> 57) s)"

definition book_inv :: "AddressBook \<Rightarrow> bool" where
  "book_inv data = (distinct (map fst data) \<and> list_all (\<lambda>(k, r). name r = k) data)"

text \<open>
  The specification's birthday format: a string has the strict shape \<open>DD.MM.YYYY\<close> when
  it is two ASCII digits, a dot, two ASCII digits, a dot and four ASCII digits;
  \<open>ascii_num\<close> reads a run of ASCII digits as a number; and day, month and year are a
  real date of the Gregorian calendar when the year is 1 to 9999, the month 1 to 12 and
  the day 1 to the length of that month in that year.
\<close>

definition ascii_digit :: "pychar \<Rightarrow> bool" where
  "ascii_digit c = (48 \<le> c \<and> c \<le> 57)"

fun ddmmyyyy_shape :: "pystr \<Rightarrow> bool" where
  "ddmmyyyy_shape [d1, d2, p1, m1, m2, p2, y1, y2, y3, y4] =
     (ascii_digit d1 \<and> ascii_digit d2 \<and> p1 = 46 \<and> ascii_digit m1 \<and> ascii_digit m2 \<and> p2 = 46
      \<and> ascii_digit y1 \<and> ascii_digit y2 \<and> ascii_digit y3 \<and> ascii_digit y4)"
| "ddmmyyyy_shape s = False"

definition ascii_num :: "pystr \<Rightarrow> int" where
  "ascii_num s = foldl (\<lambda>acc c. 10 * acc + (c - 48)) 0 s"

definition real_date :: "int \<Rightarrow> int \<Rightarrow> int \<Rightarrow> bool" where
  "real_date y m d = (1 \<le> y \<and> y \<le> 9999 \<and> 1 \<le> m \<and> m \<le> 12 \<and> 1 \<le> d \<and> d \<le> days_in_month y m)"

text \<open>
  The texts that \<open>strptime\<close> reads under \<open>%d.%m.%Y\<close>, said without the matcher. A day
  text is \<open>01\<close> to \<open>31\<close>, or \<open>1\<close> to \<open>9\<close>, or a space and \<open>1\<close> to \<open>9\<close>; the second
  character of \<open>10\<close> to \<open>29\<close> may be a decimal digit of any script. A month text is
  \<open>01\<close> to \<open>12\<close> or \<open>1\<close> to \<open>9\<close>. A year text is four decimal digits of any script.
  \<open>text_num\<close> is the number such a text stands for.
\<close>

fun day_text :: "pystr \<Rightarrow> bool" where
  "day_text [a] = (49 \<le> a \<and> a \<le> 57)"
| "day_text [a, b] =
     ((a = 51 \<and> 48 \<le> b \<and> b \<le> 49) \<or> (49 \<le> a \<and> a \<le> 50 \<and> char_isdecimal b)
      \<or> (a = 48 \<and> 49 \<le> b \<and> b \<le> 57) \<or> (a = 32 \<and> 49 \<le> b \<and> b \<le> 57))"
| "day_text t = False"

fun month_text :: "pystr \<Rightarrow> bool" where
  "month_text [a] = (49 \<le> a \<and> a \<le> 57)"
| "month_text [a, b] = ((a = 49 \<and> 48 \<le> b \<and> b \<le> 50) \<or> (a = 48 \<and> 49 \<le> b \<and> b \<le> 57))"
| "month_text t = False"

fun year_text :: "pystr \<Rightarrow> bool" where
  "year_text [a, b, c, d] =
     (char_isdecimal a \<and> char_isdecimal b \<and> char_isdecimal c \<and> char_isdecimal d)"
| "year_text t = False"

definition text_num :: "pystr \<Rightarrow> int" where
  "text_num t = foldl (\<lambda>acc c. 10 * acc + char_decimal c) 0 (filter (\<lambda>c. c \<noteq> 32) t)"

text \<open>
  The specification includes a record in the upcoming birthdays when it has a birthday
  whose next occurrence (the date the source calls \<open>bday_this_year\<close>) is between 0 and 7
  days from \<open>today\<close>.
\<close>

definition upcoming_birthday :: "date \<Rightarrow> Record \<Rightarrow> bool" where
  "upcoming_birthday today record =
     (case birthday record of
        None \<Rightarrow> False
      | Some v \<Rightarrow>
         (case strptime v of
            Inl e \<Rightarrow> False
          | Inr bday \<Rightarrow>
             (case bday_this_year today bday of
                Inl e \<Rightarrow> False
              | Inr occ \<Rightarrow> 0 \<le> sub_days occ today \<and> sub_days occ today \<le> 7)))"

section \<open>Phones\<close>

lemma ascii_digit_isdigit: "48 \<le> c \<Longrightarrow> c \<le> 57 \<Longrightarrow> char_isdigit c"
  by (simp add: char_isdigit_def char_isdecimal_def unicode_decimal_ranges_def)

lemma find_phone_in_None: "find_phone_in xs p = None \<longleftrightarrow> p \<notin> set xs"
  by (induction xs) auto

lemma find_phone_in_Some:
  "p \<in> set xs \<Longrightarrow> find_phone_in xs p = Some (length (takeWhile (\<lambda>q. q \<noteq> p) xs))"
  by (induction xs) auto

lemma remove_at_first:
  "p \<in> set xs \<Longrightarrow>
   list_remove_at (length (takeWhile (\<lambda>q. q \<noteq> p) xs)) xs
     = takeWhile (\<lambda>q. q \<noteq> p) xs @ tl (dropWhile (\<lambda>q. q \<noteq> p) xs)"
  by (induction xs) (auto simp: list_remove_at_def)

lemma remove_at_first_remove1:
  "p \<in> set xs \<Longrightarrow> list_remove_at (length (takeWhile (\<lambda>q. q \<noteq> p) xs)) xs = remove1 p xs"
  by (induction xs) (auto simp: list_remove_at_def)

text \<open>
  Claim C3, as amended. The \<open>Phone\<close> constructor accepts a string exactly when it has ten
  characters and each of them is a digit in the sense of \<open>str.isdigit\<close>; it then stores
  the string unchanged. Every other string is refused with the \<open>ValueError\<close> of the
  source. Every string of ten ASCII decimal digits is accepted.
\<close>

theorem Phone_ten_digits:
  "Phone s = (if length s = 10 \<and> list_all char_isdigit s then Inr s
              else Inl (ValueError ''Phone number must be 10 digits''))
   \<and> (ascii_decimal_digits10 s \<longrightarrow> Phone s = Inr s)"
proof -
  have "list_all char_isdigit s" if "list_all (\<lambda>c. 48 \<le> c \<and> c \<le> 57) s"
    using that by (induction s) (auto intro: ascii_digit_isdigit)
  then show ?thesis
    by (auto simp: Phone_def isdigit_def ascii_decimal_digits10_def)
qed

theorem Phone_ten_digits_witness:
  "ascii_decimal_digits10 (lit ''0123456789'') \<and> Phone (lit ''0123456789'') = Inr (lit ''0123456789'')"
proof -
  have a: "ascii_decimal_digits10 (lit ''0123456789'')" by code_simp
  with Phone_ten_digits [of "lit ''0123456789''"] show ?thesis by blast
qed

text \<open>
  Ten ARABIC-INDIC digits (U+0660 to U+0669) are not ASCII digits, and the constructor
  accepts them.
\<close>

theorem Phone_accepts_non_ascii_digits:
  "Phone [1632, 1633, 1634, 1635, 1636, 1637, 1638, 1639, 1640, 1641]
     = Inr [1632, 1633, 1634, 1635, 1636, 1637, 1638, 1639, 1640, 1641]
   \<and> \<not> ascii_decimal_digits10 [1632, 1633, 1634, 1635, 1636, 1637, 1638, 1639, 1640, 1641]"
  by code_simp

section \<open>Records\<close>

text \<open>
  Claim C9, as amended. The \<open>Record\<close> constructor never fails: for every name, the
  empty one included, it returns the record with that name, no phone and no birthday.
\<close>

theorem Record_init_never_fails:
  "Record_init nm = Inr \<lparr>name = nm, phones = [], birthday = None\<rparr>"
  by (simp add: Record_init_def Name_def)

theorem Record_init_never_fails_witness:
  "Record_init (lit ''Ann'') = Inr \<lparr>name = lit ''Ann'', phones = [], birthday = None\<rparr>"
  using Record_init_never_fails [of "lit ''Ann''"] by simp

text \<open>The constructor called with the empty name returns a record.\<close>

theorem Record_init_empty_name_succeeds:
  "Record_init [] = Inr \<lparr>name = [], phones = [], birthday = None\<rparr>"
  by (simp add: Record_init_def Name_def)

text \<open>
  Claim C5. \<open>edit_phone\<close> is all or nothing. When no phone equals the old number it
  raises and leaves the record as it was; when the old number is there and the new one
  is not a valid phone it raises and leaves the record as it was; otherwise it removes
  the first phone equal to the old number and appends the new one.
\<close>

theorem edit_phone_all_or_nothing:
  "edit_phone self old_phone new_phone =
     (if old_phone \<notin> set (phones self)
        then (Some (ValueError ''Old phone number not found''), self)
      else if Phone new_phone \<noteq> Inr new_phone
        then (Some (ValueError ''Phone number must be 10 digits''), self)
      else (None, self\<lparr>phones := remove1 old_phone (phones self) @ [new_phone]\<rparr>))"
proof (cases "old_phone \<in> set (phones self)")
  case False
  then show ?thesis
    by (simp add: edit_phone_def find_phone_def find_phone_in_None [THEN iffD2])
next
  case True
  then show ?thesis
    by (simp add: edit_phone_def find_phone_def find_phone_in_Some remove_at_first_remove1
        Phone_def)
qed

theorem edit_phone_all_or_nothing_witness:
  "edit_phone \<lparr>name = lit ''Ann'', phones = [lit ''0123456789'', lit ''1111111111''], birthday = None\<rparr>
     (lit ''0123456789'') (lit ''12345'')
   = (Some (ValueError ''Phone number must be 10 digits''),
      \<lparr>name = lit ''Ann'', phones = [lit ''0123456789'', lit ''1111111111''], birthday = None\<rparr>)
   \<and> edit_phone \<lparr>name = lit ''Ann'', phones = [lit ''0123456789'', lit ''1111111111''], birthday = None\<rparr>
     (lit ''0123456789'') (lit ''2222222222'')
   = (None, \<lparr>name = lit ''Ann'', phones = [lit ''1111111111'', lit ''2222222222''], birthday = None\<rparr>)"
proof -
  have p1: "Phone (lit ''12345'') \<noteq> Inr (lit ''12345'')" by code_simp
  have p2: "Phone (lit ''2222222222'') = Inr (lit ''2222222222'')" by code_simp
  have m: "lit ''0123456789'' \<in> set [lit ''0123456789'', lit ''1111111111'']" by simp
  show ?thesis
    using edit_phone_all_or_nothing
            [of "\<lparr>name = lit ''Ann'', phones = [lit ''0123456789'', lit ''1111111111''], birthday = None\<rparr>"
                "lit ''0123456789''" "lit ''12345''"]
          edit_phone_all_or_nothing
            [of "\<lparr>name = lit ''Ann'', phones = [lit ''0123456789'', lit ''1111111111''], birthday = None\<rparr>"
                "lit ''0123456789''" "lit ''2222222222''"]
          p1 p2
    by simp
qed

text \<open>
  Claim C8. \<open>find_phone\<close> returns the first phone of the list that equals the string
  (the one at the position before which no phone equals it), or \<open>None\<close> when there is
  none. \<open>remove_phone\<close> removes that phone only: the phones before it and all the phones
  after it, later duplicates included, stay in their order. When no phone equals the
  string it raises and leaves the record as it was.
\<close>

theorem find_phone_remove_phone_first_match:
  "find_phone self s =
     (if s \<in> set (phones self) then Some (length (takeWhile (\<lambda>p. p \<noteq> s) (phones self)))
      else None)
   \<and> remove_phone self s =
     (if s \<in> set (phones self)
      then (None, self\<lparr>phones := takeWhile (\<lambda>p. p \<noteq> s) (phones self)
                                   @ tl (dropWhile (\<lambda>p. p \<noteq> s) (phones self))\<rparr>)
      else (Some (ValueError ''Phone number not found''), self))"
  by (simp add: remove_phone_def find_phone_def find_phone_in_Some remove_at_first
      find_phone_in_None [THEN iffD2])

theorem find_phone_remove_phone_first_match_witness:
  "find_phone \<lparr>name = lit ''Ann'', phones = [lit ''1111111111'', lit ''0123456789'', lit ''0123456789''], birthday = None\<rparr>
     (lit ''0123456789'') = Some 1
   \<and> remove_phone \<lparr>name = lit ''Ann'', phones = [lit ''1111111111'', lit ''0123456789'', lit ''0123456789''], birthday = None\<rparr>
     (lit ''0123456789'')
   = (None, \<lparr>name = lit ''Ann'', phones = [lit ''1111111111'', lit ''0123456789''], birthday = None\<rparr>)"
proof -
  have ne: "lit ''1111111111'' \<noteq> lit ''0123456789''" by (simp add: lit_def)
  show ?thesis
    using find_phone_remove_phone_first_match
            [of "\<lparr>name = lit ''Ann'', phones = [lit ''1111111111'', lit ''0123456789'', lit ''0123456789''], birthday = None\<rparr>"
                "lit ''0123456789''"]
          ne
    by simp
qed

section \<open>The address book as a dictionary\<close>

lemma dict_get_setitem_same: "dict_get (dict_setitem kvs k v) k = Some v"
  by (induction kvs k v rule: dict_setitem.induct) auto

lemma dict_get_setitem_other: "k' \<noteq> k \<Longrightarrow> dict_get (dict_setitem kvs k v) k' = dict_get kvs k'"
  by (induction kvs k v rule: dict_setitem.induct) auto

lemma dict_get_None: "dict_get kvs k = None \<longleftrightarrow> k \<notin> fst ` set kvs"
  by (induction kvs k rule: dict_get.induct) auto

lemma keys_setitem: "set (map fst (dict_setitem kvs k v)) = insert k (set (map fst kvs))"
  by (induction kvs k v rule: dict_setitem.induct) auto

lemma distinct_setitem: "distinct (map fst kvs) \<Longrightarrow> distinct (map fst (dict_setitem kvs k v))"
proof (induction kvs k v rule: dict_setitem.induct)
  case (1 k v)
  then show ?case by simp
next
  case (2 k' v' kvs k v)
  have "set (map fst (dict_setitem kvs k v)) = insert k (set (map fst kvs))"
    by (rule keys_setitem)
  with 2 show ?case by auto
qed

lemma dict_setitem_absent: "k \<notin> fst ` set kvs \<Longrightarrow> dict_setitem kvs k v = kvs @ [(k, v)]"
  by (induction kvs k v rule: dict_setitem.induct) auto

lemma dict_setitem_present:
  "distinct (map fst kvs) \<Longrightarrow> k \<in> fst ` set kvs \<Longrightarrow>
   dict_setitem kvs k v = map (\<lambda>(k', v'). if k' = k then (k', v) else (k', v')) kvs"
proof (induction kvs k v rule: dict_setitem.induct)
  case (1 k v)
  then show ?case by simp
next
  case (2 k' v' kvs k v)
  show ?case
  proof (cases "k' = k")
    case True
    with 2 have "k \<notin> fst ` set kvs" by auto
    then have "map (\<lambda>(k', v'). if k' = k then (k', v) else (k', v')) kvs = kvs"
      by (induction kvs) auto
    with True show ?thesis by simp
  next
    case False
    with 2 show ?thesis by auto
  qed
qed

lemma dict_delitem_filter:
  "distinct (map fst kvs) \<Longrightarrow> dict_delitem kvs k = filter (\<lambda>(k', v'). k' \<noteq> k) kvs"
proof (induction kvs k rule: dict_delitem.induct)
  case (1 k)
  then show ?case by simp
next
  case (2 k' v' kvs k)
  show ?case
  proof (cases "k' = k")
    case True
    with 2 have "k \<notin> fst ` set kvs" by auto
    then have "filter (\<lambda>(k', v'). k' \<noteq> k) kvs = kvs"
      by (induction kvs) auto
    with True show ?thesis by simp
  next
    case False
    with 2 show ?thesis by auto
  qed
qed

lemma delete_filter:
  "distinct (map fst data) \<Longrightarrow> AddressBook_delete data nm = filter (\<lambda>(k, r). k \<noteq> nm) data"
proof (cases "dict_contains data nm")
  case True
  assume "distinct (map fst data)"
  with True show ?thesis by (simp add: AddressBook_delete_def dict_delitem_filter)
next
  case False
  then have "nm \<notin> fst ` set data" by (simp add: dict_contains_def dict_get_None)
  then have "filter (\<lambda>(k, r). k \<noteq> nm) data = data"
    by (induction data) auto
  with False show ?thesis by (simp add: AddressBook_delete_def)
qed

lemma dict_get_filter_other:
  "k' \<noteq> k \<Longrightarrow> dict_get (filter (\<lambda>(a, b). a \<noteq> k) kvs) k' = dict_get kvs k'"
  by (induction kvs) auto

lemma record_methods_keep_name:
  "name (snd (add_phone r p)) = name r"
  "name (snd (remove_phone r p)) = name r"
  "name (snd (edit_phone r p q)) = name r"
  "name (snd (Record_add_birthday r b)) = name r"
  by (simp_all add: add_phone_def remove_phone_def edit_phone_def Record_add_birthday_def
      split: sum.splits option.splits)

lemma book_inv_names: "book_inv data \<Longrightarrow> map name (dict_values data) = map fst data"
  by (induction data) (auto simp: book_inv_def dict_values_def)

text \<open>
  Claim C6. A book that holds at most one record per name still does after \<open>add_record\<close>
  and after \<open>delete\<close>. \<open>add_record\<close> stores the record under its name: a name that is
  absent gets a new entry at the end, and the entry of a name that is present is
  overwritten in place, so that the record found under the name afterwards is the new
  one and nothing of the old one is kept. The entries of other names are untouched. The
  methods that mutate a record leave its name as it was, so a record of the book stays
  under its own name. The empty book holds at most one record per name.
\<close>

theorem add_record_one_record_per_name:
  assumes "book_inv data"
  shows "book_inv (add_record data r)
    \<and> book_inv (AddressBook_delete data nm)
    \<and> distinct (map name (dict_values (add_record data r)))
    \<and> AddressBook_find (add_record data r) (name r) = Some r
    \<and> (nm \<noteq> name r \<longrightarrow> AddressBook_find (add_record data r) nm = AddressBook_find data nm)
    \<and> add_record data r =
        (if AddressBook_find data (name r) = None then data @ [(name r, r)]
         else map (\<lambda>(k, v). if k = name r then (k, r) else (k, v)) data)
    \<and> name (snd (add_phone r p)) = name r \<and> name (snd (remove_phone r p)) = name r
    \<and> name (snd (edit_phone r p q)) = name r \<and> name (snd (Record_add_birthday r b)) = name r
    \<and> book_inv []"
proof -
  from assms have d: "distinct (map fst data)" and n: "list_all (\<lambda>(k, r). name r = k) data"
    by (simp_all add: book_inv_def)
  have set_eq: "add_record data r =
        (if AddressBook_find data (name r) = None then data @ [(name r, r)]
         else map (\<lambda>(k, v). if k = name r then (k, r) else (k, v)) data)"
    using d by (simp add: add_record_def AddressBook_find_def dict_get_None
        dict_setitem_absent dict_setitem_present)
  have "list_all (\<lambda>(k, r). name r = k) (add_record data r)"
    using n unfolding set_eq by (auto simp: list_all_iff split: if_splits)
  with d have inv_add: "book_inv (add_record data r)"
    by (simp add: book_inv_def add_record_def distinct_setitem)
  have "book_inv (filter (\<lambda>(k, r). k \<noteq> nm) data)"
    using d n by (auto simp: book_inv_def list_all_iff distinct_map_filter)
  with d have inv_del: "book_inv (AddressBook_delete data nm)"
    by (simp add: delete_filter)
  from inv_add have dist: "distinct (map name (dict_values (add_record data r)))"
    by (simp add: book_inv_names) (simp add: book_inv_def)
  have f1: "AddressBook_find (add_record data r) (name r) = Some r"
    by (simp add: AddressBook_find_def add_record_def dict_get_setitem_same)
  have f2: "nm \<noteq> name r \<longrightarrow> AddressBook_find (add_record data r) nm = AddressBook_find data nm"
    by (simp add: AddressBook_find_def add_record_def dict_get_setitem_other)
  have e: "book_inv []" by (simp add: book_inv_def)
  from inv_add inv_del dist f1 f2 set_eq e show ?thesis
    by (simp only: record_methods_keep_name)
qed

theorem add_record_one_record_per_name_witness:
  "book_inv [(lit ''Ann'', \<lparr>name = lit ''Ann'', phones = [lit ''0123456789''], birthday = None\<rparr>)]
   \<and> add_record [(lit ''Ann'', \<lparr>name = lit ''Ann'', phones = [lit ''0123456789''], birthday = None\<rparr>)]
        \<lparr>name = lit ''Ann'', phones = [], birthday = None\<rparr>
      = [(lit ''Ann'', \<lparr>name = lit ''Ann'', phones = [], birthday = None\<rparr>)]
   \<and> AddressBook_find
        (add_record [(lit ''Ann'', \<lparr>name = lit ''Ann'', phones = [lit ''0123456789''], birthday = None\<rparr>)]
           \<lparr>name = lit ''Ann'', phones = [], birthday = None\<rparr>) (lit ''Ann'')
      = Some \<lparr>name = lit ''Ann'', phones = [], birthday = None\<rparr>"
proof -
  have h: "book_inv [(lit ''Ann'', \<lparr>name = lit ''Ann'', phones = [lit ''0123456789''], birthday = None\<rparr>)]"
    by (simp add: book_inv_def)
  show ?thesis
    using h add_record_one_record_per_name [OF h, of "\<lparr>name = lit ''Ann'', phones = [], birthday = None\<rparr>" "lit ''Bob''"]
    by (simp add: AddressBook_find_def)
qed

text \<open>
  Claim C7. After \<open>delete\<close> the name is not found any more, the other names are found as
  before, and \<open>__str__\<close> renders the remaining records only, in their order. Deleting a
  name that is absent raises nothing and leaves the book as it was.
\<close>

theorem delete_removes_entry:
  assumes "distinct (map fst data)"
  shows "AddressBook_find (AddressBook_delete data nm) nm = None
    \<and> (nm' \<noteq> nm \<longrightarrow> AddressBook_find (AddressBook_delete data nm) nm' = AddressBook_find data nm')
    \<and> AddressBook_delete data nm = filter (\<lambda>(k, r). k \<noteq> nm) data
    \<and> AddressBook_str (AddressBook_delete data nm)
        = join (lit [CHR 0x0A]) (map Record_str (map snd (filter (\<lambda>(k, r). k \<noteq> nm) data)))
    \<and> (AddressBook_find data nm = None \<longrightarrow> AddressBook_delete data nm = data)"
proof -
  note del = delete_filter [OF assms, of nm]
  have a: "AddressBook_find (AddressBook_delete data nm) nm = None"
    unfolding del by (auto simp: AddressBook_find_def dict_get_None)
  have b: "nm' \<noteq> nm \<longrightarrow> AddressBook_find (AddressBook_delete data nm) nm' = AddressBook_find data nm'"
    unfolding del by (simp add: AddressBook_find_def dict_get_filter_other)
  have c: "AddressBook_str (AddressBook_delete data nm)
        = join (lit [CHR 0x0A]) (map Record_str (map snd (filter (\<lambda>(k, r). k \<noteq> nm) data)))"
    unfolding del by (simp add: AddressBook_str_def dict_values_def)
  have e: "AddressBook_find data nm = None \<longrightarrow> AddressBook_delete data nm = data"
    by (simp add: AddressBook_find_def AddressBook_delete_def dict_contains_def)
  from a b c e del show ?thesis by blast
qed

theorem delete_removes_entry_witness:
  "distinct (map fst [(lit ''Ann'', \<lparr>name = lit ''Ann'', phones = [], birthday = None\<rparr>),
                      (lit ''Bob'', \<lparr>name = lit ''Bob'', phones = [], birthday = None\<rparr>)])
   \<and> AddressBook_delete [(lit ''Ann'', \<lparr>name = lit ''Ann'', phones = [], birthday = None\<rparr>),
                      (lit ''Bob'', \<lparr>name = lit ''Bob'', phones = [], birthday = None\<rparr>)] (lit ''Ann'')
      = [(lit ''Bob'', \<lparr>name = lit ''Bob'', phones = [], birthday = None\<rparr>)]
   \<and> AddressBook_find (AddressBook_delete [(lit ''Ann'', \<lparr>name = lit ''Ann'', phones = [], birthday = None\<rparr>),
                      (lit ''Bob'', \<lparr>name = lit ''Bob'', phones = [], birthday = None\<rparr>)] (lit ''Ann'')) (lit ''Ann'')
      = None"
proof -
  have h: "distinct (map fst [(lit ''Ann'', \<lparr>name = lit ''Ann'', phones = [], birthday = None\<rparr>),
                      (lit ''Bob'', \<lparr>name = lit ''Bob'', phones = [], birthday = None\<rparr>)])"
    by (simp add: lit_def)
  note t = delete_removes_entry [OF h, of "lit ''Ann''" "lit ''Bob''"]
  from t have a: "AddressBook_find (AddressBook_delete [(lit ''Ann'', \<lparr>name = lit ''Ann'', phones = [], birthday = None\<rparr>),
                      (lit ''Bob'', \<lparr>name = lit ''Bob'', phones = [], birthday = None\<rparr>)] (lit ''Ann'')) (lit ''Ann'')
      = None"
    by blast
  from t have b: "AddressBook_delete [(lit ''Ann'', \<lparr>name = lit ''Ann'', phones = [], birthday = None\<rparr>),
                      (lit ''Bob'', \<lparr>name = lit ''Bob'', phones = [], birthday = None\<rparr>)] (lit ''Ann'')
      = filter (\<lambda>(k, r). k \<noteq> lit ''Ann'')
          [(lit ''Ann'', \<lparr>name = lit ''Ann'', phones = [], birthday = None\<rparr>),
           (lit ''Bob'', \<lparr>name = lit ''Bob'', phones = [], birthday = None\<rparr>)]"
    by blast
  have c: "filter (\<lambda>(k, r). k \<noteq> lit ''Ann'')
          [(lit ''Ann'', \<lparr>name = lit ''Ann'', phones = [], birthday = None\<rparr>),
           (lit ''Bob'', \<lparr>name = lit ''Bob'', phones = [], birthday = None\<rparr>)]
      = [(lit ''Bob'', \<lparr>name = lit ''Bob'', phones = [], birthday = None\<rparr>)]"
    by (simp add: lit_def)
  from h a b c show ?thesis by simp
qed

section \<open>The calendar\<close>

lemma div_add_small: "0 \<le> r \<Longrightarrow> r < k \<Longrightarrow> (k * a + r) div k = (a::int)"
  by (simp add: div_pos_pos_trivial)

lemma mod_add_small: "0 \<le> r \<Longrightarrow> r < k \<Longrightarrow> (k * a + r) mod k = (r::int)"
  by (simp add: mod_pos_pos_trivial)

lemma dby:
  assumes "0 \<le> b" "b \<le> 3" "0 \<le> c" "c \<le> 24" "0 \<le> d" "d \<le> 3"
  shows "days_before_year (400 * a + 100 * b + 4 * c + d + 1)
           = 146097 * a + 36524 * b + 1461 * c + 365 * d"
proof -
  let ?y = "400 * a + 100 * b + 4 * c + d"
  have "?y = 400 * a + (100 * b + 4 * c + d)" by simp
  then have q400: "?y div 400 = a"
    using assms div_add_small [of "100 * b + 4 * c + d" 400 a] by simp
  have "?y = 100 * (4 * a + b) + (4 * c + d)" by simp
  then have q100: "?y div 100 = 4 * a + b"
    using assms div_add_small [of "4 * c + d" 100 "4 * a + b"] by simp
  have "?y = 4 * (100 * a + 25 * b + c) + d" by simp
  then have q4: "?y div 4 = 100 * a + 25 * b + c"
    using assms div_add_small [of d 4 "100 * a + 25 * b + c"] by simp
  show ?thesis
    using q400 q100 q4 by (simp add: days_before_year_def)
qed

lemma leap:
  assumes "0 \<le> b" "b \<le> 3" "0 \<le> c" "c \<le> 24" "0 \<le> d" "d \<le> 3"
  shows "is_leap (400 * a + 100 * b + 4 * c + d + 1) = (d = 3 \<and> (c \<noteq> 24 \<or> b = 3))"
proof -
  let ?y = "400 * a + 100 * b + 4 * c + d + 1"
  show ?thesis
  proof (cases "d = 3")
    case False
    have e: "?y = 4 * (100 * a + 25 * b + c) + (d + 1)" by simp
    have "(4 * (100 * a + 25 * b + c) + (d + 1)) mod 4 = d + 1"
      using assms False by (intro mod_add_small) auto
    then have "?y mod 4 = d + 1" by (simp only: e)
    with assms False show ?thesis by (simp add: is_leap_def)
  next
    case True
    have e4: "?y = 4 * (100 * a + 25 * b + c + 1)" using True by simp
    have m4: "?y mod 4 = 0" by (simp only: e4) simp
    show ?thesis
    proof (cases "c = 24")
      case False
      have e: "?y = 100 * (4 * a + b) + (4 * c + 4)" using True by simp
      have "(100 * (4 * a + b) + (4 * c + 4)) mod 100 = 4 * c + 4"
        using assms False by (intro mod_add_small) auto
      then have "?y mod 100 = 4 * c + 4" by (simp only: e)
      with assms False True m4 show ?thesis by (simp add: is_leap_def)
    next
      case c: True
      have e100: "?y = 100 * (4 * a + b + 1)" using True c by simp
      have m100: "?y mod 100 = 0" by (simp only: e100) simp
      show ?thesis
      proof (cases "b = 3")
        case True
        have e400: "?y = 400 * (a + 1)" using True c \<open>d = 3\<close> by simp
        have "?y mod 400 = 0" by (simp only: e400) simp
        with True c \<open>d = 3\<close> m4 show ?thesis by (simp add: is_leap_def)
      next
        case False
        have e: "?y = 400 * a + (100 * b + 100)" using c \<open>d = 3\<close> by simp
        have "(400 * a + (100 * b + 100)) mod 400 = 100 * b + 100"
          using assms False by (intro mod_add_small) auto
        then have "?y mod 400 = 100 * b + 100" by (simp only: e)
        with assms False c \<open>d = 3\<close> m4 m100 show ?thesis by (simp add: is_leap_def)
      qed
    qed
  qed
qed

lemma int_1_12_cases:
  "1 \<le> k \<Longrightarrow> k \<le> 12 \<Longrightarrow>
   k = 1 \<or> k = 2 \<or> k = 3 \<or> k = 4 \<or> k = 5 \<or> k = 6 \<or> k = 7 \<or> k = 8 \<or> k = 9 \<or> k = 10
     \<or> k = 11 \<or> k = (12::int)"
  by arith

lemma month_day_of_ok:
  assumes "0 \<le> n" "n \<le> 364"
  shows "case month_day_of L n of (mo, d) \<Rightarrow>
           1 \<le> mo \<and> mo \<le> 12 \<and>
           DAYS_BEFORE_MONTH ! nat mo + (if mo > 2 \<and> L then 1 else 0) + d = n + 1 \<and>
           1 \<le> d \<and> d \<le> (if mo = 2 \<and> L then 29 else DAYS_IN_MONTH ! nat mo)"
proof -
  define q where "q = (n + 50) div 32"
  define r where "r = (n + 50) mod 32"
  have "32 * q + r = n + 50" by (simp add: q_def r_def)
  moreover have "0 \<le> r" "r < 32" by (simp_all add: r_def)
  ultimately have lo: "32 * q \<le> n + 50" and hi: "n + 50 < 32 * q + 32" by simp_all
  have md: "month_day_of L n =
     (if DAYS_BEFORE_MONTH ! nat q + (if q > 2 \<and> L then 1 else 0) > n
      then (q - 1, n - (DAYS_BEFORE_MONTH ! nat q + (if q > 2 \<and> L then 1 else 0)
                - (DAYS_IN_MONTH ! nat (q - 1) + (if q - 1 = 2 \<and> L then 1 else 0))) + 1)
      else (q, n - (DAYS_BEFORE_MONTH ! nat q + (if q > 2 \<and> L then 1 else 0)) + 1))"
    by (simp only: month_day_of_def Let_def q_def)
  have "1 \<le> q" "q \<le> 12"
    using assms zdiv_mono1 [of 50 "n + 50" 32] zdiv_mono1 [of "n + 50" 414 32]
    by (simp_all add: q_def)
  then have "q = 1 \<or> q = 2 \<or> q = 3 \<or> q = 4 \<or> q = 5 \<or> q = 6 \<or> q = 7
      \<or> q = 8 \<or> q = 9 \<or> q = 10 \<or> q = 11 \<or> q = 12"
    by (rule int_1_12_cases)
  then show ?thesis
    unfolding md using assms lo hi
    by (elim disjE) (simp_all add: DAYS_BEFORE_MONTH_def DAYS_IN_MONTH_def)
qed

lemma ymd2ord_ord2ymd:
  assumes "1 \<le> n0"
  shows "case ord2ymd n0 of (y, m, d) \<Rightarrow>
           ymd2ord y m d = n0 \<and> 1 \<le> y \<and> 1 \<le> m \<and> m \<le> 12 \<and> 1 \<le> d \<and> d \<le> days_in_month y m"
proof -
  define n where "n = n0 - 1"
  define a where "a = n div 146097"
  define r1 where "r1 = n mod 146097"
  define b where "b = r1 div 36524"
  define r2 where "r2 = r1 mod 36524"
  define c where "c = r2 div 1461"
  define r3 where "r3 = r2 mod 1461"
  define d where "d = r3 div 365"
  define r4 where "r4 = r3 mod 365"
  define yr where "yr = a * 400 + 1 + b * 100 + c * 4 + d"
  define L where "L = (d = 3 \<and> (c \<noteq> 24 \<or> b = 3))"
  have n: "n = 146097 * a + r1" and r1: "0 \<le> r1" "r1 < 146097"
    by (simp_all add: a_def r1_def)
  have r1': "r1 = 36524 * b + r2" and r2: "0 \<le> r2" "r2 < 36524"
    by (simp_all add: b_def r2_def)
  have r2': "r2 = 1461 * c + r3" and r3: "0 \<le> r3" "r3 < 1461"
    by (simp_all add: c_def r3_def)
  have r3': "r3 = 365 * d + r4" and r4: "0 \<le> r4" "r4 < 365"
    by (simp_all add: d_def r4_def)
  have b: "0 \<le> b" "b \<le> 4"
    using r1 zdiv_mono1 [of 0 r1 36524] zdiv_mono1 [of r1 146096 36524] by (simp_all add: b_def)
  have c: "0 \<le> c" "c \<le> 24"
    using r2 zdiv_mono1 [of 0 r2 1461] zdiv_mono1 [of r2 36523 1461] by (simp_all add: c_def)
  have d: "0 \<le> d" "d \<le> 4"
    using r3 zdiv_mono1 [of 0 r3 365] zdiv_mono1 [of r3 1460 365] by (simp_all add: d_def)
  have ord: "ord2ymd n0 =
      (if d = 4 \<or> b = 4 then (yr - 1, 12, 31)
       else (case month_day_of L r4 of (mo, dd) \<Rightarrow> (yr, mo, dd)))"
    by (simp only: ord2ymd_def Let_def n_def a_def r1_def b_def r2_def c_def r3_def d_def
        r4_def yr_def L_def)
  have a: "0 \<le> a"
    using assms zdiv_mono1 [of 0 n 146097] by (simp add: a_def n_def)
  have yr: "yr = 400 * a + 100 * b + 4 * c + d + 1"
    by (simp add: yr_def)
  have total: "n0 = 146097 * a + 36524 * b + 1461 * c + 365 * d + r4 + 1"
    using n r1' r2' r3' by (simp add: n_def)
  show ?thesis
  proof (cases "b = 4")
    case True
    with r1' r1 r2 have "r2 = 0" by simp
    with r2' r3 c have "c = 0" "r3 = 0" by auto
    with r3' r4 d have "d = 0" "r4 = 0" by auto
    have y: "yr - 1 = 400 * a + 100 * 3 + 4 * 24 + 3 + 1"
      using True \<open>c = 0\<close> \<open>d = 0\<close> by (simp add: yr_def)
    have "days_before_year (yr - 1) = 146097 * a + 36524 * 3 + 1461 * 24 + 365 * 3"
      unfolding y by (rule dby) simp_all
    moreover have "is_leap (yr - 1)"
      unfolding y by (subst leap) simp_all
    ultimately have "ymd2ord (yr - 1) 12 31 = n0"
      using total True \<open>c = 0\<close> \<open>d = 0\<close> \<open>r4 = 0\<close>
      by (simp add: ymd2ord_def days_before_month_def DAYS_BEFORE_MONTH_def)
    moreover have "1 \<le> yr - 1" using a by (simp add: y)
    moreover have "days_in_month (yr - 1) 12 = 31"
      by (simp add: days_in_month_def DAYS_IN_MONTH_def)
    ultimately show ?thesis using ord True by simp
  next
    case b4: False
    with b have b3: "b \<le> 3" by simp
    show ?thesis
    proof (cases "d = 4")
      case True
      with r3' r3 r4 have "r4 = 0" by simp
      from True r3' r4 r2' r2 have "c \<noteq> 24" by auto
      with c have c23: "c \<le> 23" by simp
      have y: "yr - 1 = 400 * a + 100 * b + 4 * c + 3 + 1"
        using True by (simp add: yr_def)
      have "days_before_year (yr - 1) = 146097 * a + 36524 * b + 1461 * c + 365 * 3"
        unfolding y using b b3 c by (intro dby) simp_all
      moreover have "is_leap (yr - 1)"
        unfolding y using b b3 c \<open>c \<noteq> 24\<close> by (subst leap) simp_all
      ultimately have "ymd2ord (yr - 1) 12 31 = n0"
        using total True \<open>r4 = 0\<close>
        by (simp add: ymd2ord_def days_before_month_def DAYS_BEFORE_MONTH_def)
      moreover have "1 \<le> yr - 1" using a b c by (simp add: y)
      moreover have "days_in_month (yr - 1) 12 = 31"
        by (simp add: days_in_month_def DAYS_IN_MONTH_def)
      ultimately show ?thesis using ord True by simp
    next
      case False
      with d have d3: "d \<le> 3" by simp
      obtain mo dd where md: "month_day_of L r4 = (mo, dd)" by (cases "month_day_of L r4")
      from month_day_of_ok [of r4 L] r4 md
      have mo: "1 \<le> mo" "mo \<le> 12"
        and sum: "DAYS_BEFORE_MONTH ! nat mo + (if mo > 2 \<and> L then 1 else 0) + dd = r4 + 1"
        and dd: "1 \<le> dd" "dd \<le> (if mo = 2 \<and> L then 29 else DAYS_IN_MONTH ! nat mo)"
        by simp_all
      have "days_before_year yr = 146097 * a + 36524 * b + 1461 * c + 365 * d"
        unfolding yr using b b3 c d d3 by (intro dby) simp_all
      moreover have lp: "is_leap yr = L"
        unfolding yr L_def using b b3 c d d3 by (intro leap) simp_all
      ultimately have "ymd2ord yr mo dd = n0"
        using total sum by (simp add: ymd2ord_def days_before_month_def)
      moreover have "1 \<le> yr" using a b c d by (simp add: yr)
      moreover have "dd \<le> days_in_month yr mo"
        using dd(2) by (simp add: days_in_month_def lp)
      ultimately show ?thesis using ord b4 False md mo dd(1) by simp
    qed
  qed
qed

lemma toordinal_fromordinal: "1 \<le> n \<Longrightarrow> toordinal (fromordinal n) = n"
  using ymd2ord_ord2ymd [of n]
  by (simp add: toordinal_def fromordinal_def split: prod.splits)

lemma div_step:
  assumes "0 < k"
  shows "(y::int) div k = (y - 1) div k + (if y mod k = 0 then 1 else 0)"
proof -
  define q where "q = (y - 1) div k"
  define r where "r = (y - 1) mod k"
  have "k * q + r = y - 1" by (simp add: q_def r_def)
  then have y: "y = k * q + (r + 1)" by simp
  have r: "0 \<le> r" "r < k" using assms by (simp_all add: r_def)
  show ?thesis
  proof (cases "r + 1 = k")
    case True
    with y have e: "y = k * (q + 1)" by (simp add: algebra_simps)
    have "(k * (q + 1)) div k = q + 1" "(k * (q + 1)) mod k = 0"
      using assms by simp_all
    then have "y div k = q + 1" "y mod k = 0"
      using e by simp_all
    then show ?thesis unfolding q_def [symmetric] by simp
  next
    case False
    with r have "r + 1 < k" by simp
    with r have "(k * q + (r + 1)) div k = q" "(k * q + (r + 1)) mod k = r + 1"
      by (simp_all add: div_add_small mod_add_small)
    then have "y div k = q" "y mod k = r + 1"
      using y by simp_all
    with r show ?thesis unfolding q_def [symmetric] by simp
  qed
qed

lemma days_before_year_Suc:
  "days_before_year (y + 1) = days_before_year y + (if is_leap y then 366 else 365)"
proof -
  define q4 where "q4 = (y - 1) div 4"
  define q100 where "q100 = (y - 1) div 100"
  define q400 where "q400 = (y - 1) div 400"
  define P4 where "P4 \<longleftrightarrow> y mod 4 = 0"
  define P100 where "P100 \<longleftrightarrow> y mod 100 = 0"
  define P400 where "P400 \<longleftrightarrow> y mod 400 = 0"
  have d4: "y div 4 = q4 + (if P4 then 1 else 0)"
    unfolding q4_def P4_def by (rule div_step) simp
  have d100: "y div 100 = q100 + (if P100 then 1 else 0)"
    unfolding q100_def P100_def by (rule div_step) simp
  have d400: "y div 400 = q400 + (if P400 then 1 else 0)"
    unfolding q400_def P400_def by (rule div_step) simp
  have m1: "P4" if "P100"
    using that mod_mod_cancel [of 4 100 y] by (simp add: P4_def P100_def)
  have m2: "P100" if "P400"
    using that mod_mod_cancel [of 100 400 y] by (simp add: P400_def P100_def)
  have a: "days_before_year (y + 1) = y * 365 + y div 4 - y div 100 + y div 400"
    by (simp add: days_before_year_def)
  have b: "days_before_year y = (y - 1) * 365 + q4 - q100 + q400"
    by (simp only: days_before_year_def Let_def q4_def q100_def q400_def)
  have l: "is_leap y \<longleftrightarrow> P4 \<and> (\<not> P100 \<or> P400)"
    by (simp only: is_leap_def P4_def P100_def P400_def)
  show ?thesis
    unfolding a b d4 d100 d400 l
    using m1 m2 by (cases P4; cases P100; cases P400) (simp_all add: algebra_simps)
qed

lemma days_before_year_mono: "y \<le> y' \<Longrightarrow> days_before_year y \<le> days_before_year y'"
proof (induction y' rule: int_ge_induct)
  case base
  show ?case by simp
next
  case (step i)
  then show ?case by (simp add: days_before_year_Suc)
qed

lemma days_before_month_day_bounds:
  assumes "1 \<le> m" "m \<le> 12" "1 \<le> d" "d \<le> days_in_month y m"
  shows "1 \<le> days_before_month y m + d"
    and "days_before_month y m + d \<le> (if is_leap y then 366 else 365)"
proof -
  from assms(1,2) have "m = 1 \<or> m = 2 \<or> m = 3 \<or> m = 4 \<or> m = 5 \<or> m = 6 \<or> m = 7 \<or> m = 8
      \<or> m = 9 \<or> m = 10 \<or> m = 11 \<or> m = 12"
    by (rule int_1_12_cases)
  then show "1 \<le> days_before_month y m + d"
    and "days_before_month y m + d \<le> (if is_leap y then 366 else 365)"
    using assms(3,4)
    by (auto simp: days_before_month_def days_in_month_def DAYS_BEFORE_MONTH_def
        DAYS_IN_MONTH_def split: if_splits)
qed

lemma date_new_Inr:
  "date_new y m d = Inr dt \<longleftrightarrow>
     dt = \<lparr>year = y, month = m, day = d\<rparr> \<and> 1 \<le> y \<and> y \<le> 9999 \<and> 1 \<le> m \<and> m \<le> 12
       \<and> 1 \<le> d \<and> d \<le> days_in_month y m"
  by (auto simp: date_new_def)

lemma toordinal_bounds:
  assumes "date_new y m d = Inr dt"
  shows "1 \<le> toordinal dt" and "toordinal dt \<le> MAXORDINAL"
proof -
  from assms have dt: "dt = \<lparr>year = y, month = m, day = d\<rparr>"
    and y: "1 \<le> y" "y \<le> 9999" and m: "1 \<le> m" "m \<le> 12"
    and d: "1 \<le> d" "d \<le> days_in_month y m"
    by (simp_all add: date_new_Inr)
  note md = days_before_month_day_bounds [OF m d]
  have "days_before_year 1 \<le> days_before_year y"
    using y by (intro days_before_year_mono) simp
  then have "0 \<le> days_before_year y" by (simp add: days_before_year_def)
  with md(1) show "1 \<le> toordinal dt"
    by (simp add: dt toordinal_def ymd2ord_def)
  have "days_before_year (y + 1) \<le> days_before_year 10000"
    using y by (intro days_before_year_mono) simp
  moreover have "days_before_year 10000 = 3652059"
    by (simp add: days_before_year_def)
  ultimately have "days_before_year y + (if is_leap y then 366 else 365) \<le> 3652059"
    by (simp add: days_before_year_Suc)
  with md(2) show "toordinal dt \<le> MAXORDINAL"
    by (simp add: dt toordinal_def ymd2ord_def MAXORDINAL_def split: if_splits)
qed

lemma weekend_not_last:
  assumes "o1 \<le> 3652059" "5 \<le> (o1 + 6) mod 7"
  shows "o1 + (7 - (o1 + 6) mod 7) \<le> (3652059::int)"
proof -
  have "o1 \<le> 3652057"
  proof (rule ccontr)
    assume "\<not> o1 \<le> 3652057"
    with assms(1) have "o1 = 3652058 \<or> o1 = 3652059" by arith
    with assms(2) show False by auto
  qed
  with assms(2) show ?thesis by simp
qed

lemma next_monday: "(k + (7 - (k + 6) mod 7) + 6) mod 7 = (0::int)"
  by presburger

lemma weekday_range: "0 \<le> weekday d" "weekday d < 7"
  by (simp_all add: weekday_def)

lemma congratulation_date_cases:
  assumes "1 \<le> toordinal d" "toordinal d \<le> MAXORDINAL"
  shows "\<exists>cd. congratulation_date d = Inr cd
            \<and> (weekday d < 5 \<longrightarrow> cd = d)
            \<and> (weekday d = 5 \<longrightarrow> toordinal cd = toordinal d + 2 \<and> weekday cd = 0)
            \<and> (weekday d = 6 \<longrightarrow> toordinal cd = toordinal d + 1 \<and> weekday cd = 0)"
proof (cases "5 \<le> weekday d")
  case False
  then show ?thesis by (simp add: congratulation_date_def)
next
  case True
  let ?o = "toordinal d + (7 - weekday d)"
  have hi: "?o \<le> MAXORDINAL"
    using assms(2) True weekend_not_last [of "toordinal d"]
    by (simp add: MAXORDINAL_def weekday_def)
  have lo: "1 \<le> ?o" using assms(1) weekday_range [of d] by simp
  from lo hi True have cd: "congratulation_date d = Inr (fromordinal ?o)"
    by (simp add: congratulation_date_def add_timedelta_def Let_def)
  have t: "toordinal (fromordinal ?o) = ?o" using lo by (rule toordinal_fromordinal)
  have "weekday (fromordinal ?o) = (?o + 6) mod 7"
    using t by (simp add: weekday_def [of "fromordinal ?o"])
  also have "\<dots> = 0"
    unfolding weekday_def [of d] by (rule next_monday)
  finally have w: "weekday (fromordinal ?o) = 0" .
  from True weekday_range [of d] have "weekday d = 5 \<or> weekday d = 6" by arith
  with cd t w show ?thesis by auto
qed

lemma real_date_date_new:
  "real_date (year d) (month d) (day d) \<longleftrightarrow> date_new (year d) (month d) (day d) = Inr d"
  by (auto simp: date_new_Inr real_date_def)

lemma fromordinal_real_date:
  assumes "1 \<le> n" "n \<le> MAXORDINAL"
  shows "real_date (year (fromordinal n)) (month (fromordinal n)) (day (fromordinal n))"
proof -
  obtain y m d where o: "ord2ymd n = (y, m, d)" by (cases "ord2ymd n")
  with ymd2ord_ord2ymd [OF assms(1)]
  have ord: "ymd2ord y m d = n" and y: "1 \<le> y" and m: "1 \<le> m" "m \<le> 12"
    and d: "1 \<le> d" "d \<le> days_in_month y m"
    by simp_all
  have "y \<le> 9999"
  proof (rule ccontr)
    assume "\<not> y \<le> 9999"
    then have "days_before_year 10000 \<le> days_before_year y"
      by (intro days_before_year_mono) simp
    moreover have "days_before_year 10000 = 3652059"
      by (simp add: days_before_year_def)
    moreover note days_before_month_day_bounds(1) [OF m d]
    ultimately have "3652059 < ymd2ord y m d" by (simp add: ymd2ord_def)
    with ord assms(2) show False by (simp add: MAXORDINAL_def)
  qed
  with y m d o show ?thesis by (simp add: real_date_def fromordinal_def)
qed

lemma days_before_month_next:
  assumes "1 \<le> m" "m < m'" "m' \<le> 12"
  shows "days_before_month y m + days_in_month y m \<le> days_before_month y m'"
proof -
  from assms have "1 \<le> m'" "m \<le> 12" by simp_all
  note cm = int_1_12_cases [OF assms(1) \<open>m \<le> 12\<close>]
  note cm' = int_1_12_cases [OF \<open>1 \<le> m'\<close> assms(3)]
  from cm show ?thesis
    using cm' assms(2)
    by (elim disjE)
       (auto simp: days_before_month_def days_in_month_def DAYS_BEFORE_MONTH_def
          DAYS_IN_MONTH_def)
qed

lemma toordinal_less:
  assumes a: "real_date (year a) (month a) (day a)"
    and b: "real_date (year b) (month b) (day b)"
    and lt: "date_lt a b"
  shows "toordinal a < toordinal b"
proof -
  from a have ma: "1 \<le> month a" "month a \<le> 12" and da: "1 \<le> day a"
    "day a \<le> days_in_month (year a) (month a)"
    by (simp_all add: real_date_def)
  from b have mb: "1 \<le> month b" "month b \<le> 12" and db: "1 \<le> day b"
    "day b \<le> days_in_month (year b) (month b)"
    by (simp_all add: real_date_def)
  note ba = days_before_month_day_bounds [OF ma da]
  note bb = days_before_month_day_bounds [OF mb db]
  consider "year a < year b"
    | "year a = year b" "month a < month b"
    | "year a = year b" "month a = month b" "day a < day b"
    using lt by (auto simp: date_lt_def)
  then show ?thesis
  proof cases
    case 1
    then have "days_before_year (year a + 1) \<le> days_before_year (year b)"
      by (intro days_before_year_mono) simp
    with ba(2) bb(1) show ?thesis
      by (simp add: toordinal_def ymd2ord_def days_before_year_Suc split: if_splits)
  next
    case 2
    from days_before_month_next [OF ma(1) 2(2) mb(2), of "year a"] da(2) db(1) 2(1)
    show ?thesis by (simp add: toordinal_def ymd2ord_def)
  next
    case 3
    then show ?thesis by (simp add: toordinal_def ymd2ord_def)
  qed
qed

lemma toordinal_inj:
  assumes "real_date (year a) (month a) (day a)" "real_date (year b) (month b) (day b)"
    and "toordinal a = toordinal b"
  shows "a = (b::date)"
proof -
  from toordinal_less [OF assms(1,2)] assms(3) have "\<not> date_lt a b" by auto
  moreover from toordinal_less [OF assms(2,1)] assms(3) have "\<not> date_lt b a" by auto
  ultimately have "year a = year b" "month a = month b" "day a = day b"
    by (auto simp: date_lt_def not_less)
  then show ?thesis by simp
qed

lemma congratulation_date_real_date:
  assumes "real_date (year d) (month d) (day d)" "congratulation_date d = Inr cd"
  shows "real_date (year cd) (month cd) (day cd)"
proof (cases "5 \<le> weekday d")
  case False
  with assms show ?thesis by (simp add: congratulation_date_def)
next
  case True
  with assms(2) have "add_timedelta d (7 - weekday d) = Inr cd"
    by (simp add: congratulation_date_def Let_def)
  then have "cd = fromordinal (toordinal d + (7 - weekday d))"
    and "1 \<le> toordinal d + (7 - weekday d)" "toordinal d + (7 - weekday d) \<le> MAXORDINAL"
    by (auto simp: add_timedelta_def Let_def split: if_splits)
  then show ?thesis by (simp add: fromordinal_real_date)
qed

lemma replace_year_Inr:
  "replace_year d y = Inr d' \<Longrightarrow>
     date_new y (month d) (day d) = Inr d' \<and> year d' = y \<and> month d' = month d \<and> day d' = day d"
  by (auto simp: replace_year_def date_new_Inr)

lemma bday_this_year_Inr:
  assumes "bday_this_year today bday = Inr occ"
  shows "date_new (year occ) (month occ) (day occ) = Inr occ"
    and "month occ = month bday" and "day occ = day bday"
    and "\<not> date_lt occ today"
    and "year occ = year today \<or> year occ = year today + 1"
proof -
  from assms obtain ty where ty: "replace_year bday (year today) = Inr ty"
    and occ: "(if date_lt ty today then replace_year ty (year today + 1) else Inr ty) = Inr occ"
    by (auto simp: bday_this_year_def split: sum.splits)
  note a = replace_year_Inr [OF ty]
  show "date_new (year occ) (month occ) (day occ) = Inr occ"
    and "month occ = month bday" and "day occ = day bday"
    and "\<not> date_lt occ today"
    and "year occ = year today \<or> year occ = year today + 1"
    using a occ by (auto split: if_splits dest!: replace_year_Inr simp: date_lt_def)
qed

lemma date_new_ValueError: "date_new y m d = Inl e \<Longrightarrow> \<exists>msg. e = ValueError msg"
  by (auto simp: date_new_def split: if_splits)

lemma py_int_ValueError: "py_int s = Inl e \<Longrightarrow> \<exists>msg. e = ValueError msg"
  by (auto simp: py_int_def Let_def split: if_splits)

lemma strptime_ValueError: "strptime s = Inl e \<Longrightarrow> \<exists>msg. e = ValueError msg"
  by (auto simp: strptime_def split: option.splits prod.splits if_splits sum.splits
      dest: date_new_ValueError py_int_ValueError)

lemma bday_this_year_ValueError:
  "bday_this_year today bday = Inl e \<Longrightarrow> \<exists>msg. e = ValueError msg"
  by (auto simp: bday_this_year_def replace_year_def split: sum.splits if_splits
      dest: date_new_ValueError)

lemma upcoming_item_ValueError:
  assumes "upcoming_item today record = Inl e"
  shows "\<exists>msg. e = ValueError msg"
proof (cases "birthday record")
  case None
  with assms show ?thesis by (simp add: upcoming_item_def)
next
  case (Some v)
  show ?thesis
  proof (cases "strptime v")
    case (Inl e1)
    with assms Some show ?thesis
      by (auto simp: upcoming_item_def dest: strptime_ValueError)
  next
    case (Inr bday)
    show ?thesis
    proof (cases "bday_this_year today bday")
      case (Inl e1)
      with assms Some Inr show ?thesis
        by (auto simp: upcoming_item_def dest: bday_this_year_ValueError)
    next
      case occ: (Inr occ)
      have "1 \<le> toordinal occ" "toordinal occ \<le> MAXORDINAL"
        using toordinal_bounds [OF bday_this_year_Inr(1) [OF occ]] by simp_all
      from congratulation_date_cases [OF this]
      obtain cd where "congratulation_date occ = Inr cd" by blast
      with assms Some Inr occ show ?thesis
        by (simp add: upcoming_item_def Let_def split: if_splits)
    qed
  qed
qed

section \<open>Birthday validation\<close>

lemma int_0_9_cases:
  "0 \<le> k \<Longrightarrow> k \<le> 9 \<Longrightarrow>
   k = 0 \<or> k = 1 \<or> k = 2 \<or> k = 3 \<or> k = 4 \<or> k = 5 \<or> k = 6 \<or> k = 7 \<or> k = 8 \<or> k = (9::int)"
  by arith

lemma ascii_isdecimal: "0 \<le> a \<Longrightarrow> a \<le> 9 \<Longrightarrow> char_isdecimal (48 + a)"
  by (simp add: char_isdecimal_def unicode_decimal_ranges_def)

lemma ascii_decimal: "0 \<le> a \<Longrightarrow> a \<le> 9 \<Longrightarrow> char_decimal (48 + a) = a"
  by (simp add: char_decimal_def unicode_decimal_ranges_def)

lemma re_d_two_digits:
  assumes "0 \<le> a" "a \<le> 9" "0 \<le> b" "b \<le> 9"
  shows "concat (map (\<lambda>(d, r1). concat (map (\<lambda>(dot1, r2). G d r2) (chr 46 r1)))
           (re_d ((48 + a) # (48 + b) # 46 # rest)))
         = (if 1 \<le> 10 * a + b \<and> 10 * a + b \<le> 31 then G [48 + a, 48 + b] rest else [])"
proof -
  note ds = re_d_def re_alt_def re_seq_def chr_def rng_def cls_def
  have db: "char_isdecimal (48 + b)" using assms by (simp add: ascii_isdecimal)
  from assms(1,2) have "a = 0 \<or> a = 1 \<or> a = 2 \<or> a = 3 \<or> a = 4 \<or> a = 5 \<or> a = 6 \<or> a = 7
      \<or> a = 8 \<or> a = 9"
    by (rule int_0_9_cases)
  then show ?thesis
    using assms(3,4) db by (elim disjE) (auto simp: ds)
qed

lemma re_m_two_digits:
  assumes "0 \<le> a" "a \<le> 9" "0 \<le> b" "b \<le> 9"
  shows "concat (map (\<lambda>(m, r3). concat (map (\<lambda>(dot2, r4). G m r4) (chr 46 r3)))
           (re_m ((48 + a) # (48 + b) # 46 # rest)))
         = (if 1 \<le> 10 * a + b \<and> 10 * a + b \<le> 12 then G [48 + a, 48 + b] rest else [])"
proof -
  note ds = re_m_def re_alt_def re_seq_def chr_def rng_def cls_def
  from assms(1,2) have "a = 0 \<or> a = 1 \<or> a = 2 \<or> a = 3 \<or> a = 4 \<or> a = 5 \<or> a = 6 \<or> a = 7
      \<or> a = 8 \<or> a = 9"
    by (rule int_0_9_cases)
  then show ?thesis
    using assms(3,4) by (elim disjE) (auto simp: ds)
qed

lemma re_Y_four_digits:
  assumes "0 \<le> a" "a \<le> 9" "0 \<le> b" "b \<le> 9" "0 \<le> c" "c \<le> 9" "0 \<le> d" "d \<le> 9"
  shows "re_Y [48 + a, 48 + b, 48 + c, 48 + d] = [([48 + a, 48 + b, 48 + c, 48 + d], [])]"
  using assms by (simp add: re_Y_def re_seq_def cls_def ascii_isdecimal)

lemma py_int_two_digits:
  assumes "0 \<le> a" "a \<le> 9" "0 \<le> b" "b \<le> 9"
  shows "py_int [48 + a, 48 + b] = Inr (10 * a + b)"
  using assms by (simp add: py_int_def ascii_isdecimal ascii_decimal)

lemma py_int_four_digits:
  assumes "0 \<le> a" "a \<le> 9" "0 \<le> b" "b \<le> 9" "0 \<le> c" "c \<le> 9" "0 \<le> d" "d \<le> 9"
  shows "py_int [48 + a, 48 + b, 48 + c, 48 + d] = Inr (1000 * a + 100 * b + 10 * c + d)"
  using assms by (simp add: py_int_def ascii_isdecimal ascii_decimal)

lemma days_in_month_le_31: "1 \<le> m \<Longrightarrow> m \<le> 12 \<Longrightarrow> days_in_month y m \<le> 31"
  using int_1_12_cases [of m]
  by (auto simp: days_in_month_def DAYS_IN_MONTH_def)

lemma strptime_strict:
  assumes "0 \<le> d1" "d1 \<le> 9" "0 \<le> d2" "d2 \<le> 9" "0 \<le> m1" "m1 \<le> 9" "0 \<le> m2" "m2 \<le> 9"
    and "0 \<le> y1" "y1 \<le> 9" "0 \<le> y2" "y2 \<le> 9" "0 \<le> y3" "y3 \<le> 9" "0 \<le> y4" "y4 \<le> 9"
  shows "strptime [48 + d1, 48 + d2, 46, 48 + m1, 48 + m2, 46, 48 + y1, 48 + y2, 48 + y3, 48 + y4]
         = (if 1 \<le> 10 * d1 + d2 \<and> 10 * d1 + d2 \<le> 31 \<and> 1 \<le> 10 * m1 + m2 \<and> 10 * m1 + m2 \<le> 12
            then date_new (1000 * y1 + 100 * y2 + 10 * y3 + y4) (10 * m1 + m2) (10 * d1 + d2)
            else Inl (ValueError ''time data does not match format''))"
proof -
  have m: "format_regex_match
             [48 + d1, 48 + d2, 46, 48 + m1, 48 + m2, 46, 48 + y1, 48 + y2, 48 + y3, 48 + y4]
           = (if 1 \<le> 10 * d1 + d2 \<and> 10 * d1 + d2 \<le> 31 \<and> 1 \<le> 10 * m1 + m2 \<and> 10 * m1 + m2 \<le> 12
              then Some ([48 + d1, 48 + d2], [48 + m1, 48 + m2],
                         [48 + y1, 48 + y2, 48 + y3, 48 + y4], [])
              else None)"
    unfolding format_regex_match_def
    by (simp add: re_d_two_digits [OF assms(1-4)] re_m_two_digits [OF assms(5-8)]
        re_Y_four_digits [OF assms(9-16)])
  show ?thesis
    unfolding strptime_def m
    by (simp add: py_int_two_digits [OF assms(1-4)] py_int_two_digits [OF assms(5-8)]
        py_int_four_digits [OF assms(9-16)])
qed

lemma strptime_Inr_real:
  assumes "strptime s = Inr bday"
  shows "real_date (year bday) (month bday) (day bday)"
proof -
  from assms obtain y m d where "date_new y m d = Inr bday"
    by (auto simp: strptime_def split: option.splits prod.splits if_splits sum.splits)
  then show ?thesis by (auto simp: date_new_Inr real_date_def)
qed

lemma Birthday_cases:
  "Birthday s = (case strptime s of
                   Inl e \<Rightarrow> Inl (ValueError
                     ''Invalid date. Ensure the date is valid and in DD.MM.YYYY format'')
                 | Inr d \<Rightarrow> Inr s)"
  by (auto simp: Birthday_def split: sum.splits error.splits dest: strptime_ValueError)

lemma Birthday_strict_chars:
  assumes c: "ascii_digit c1" "ascii_digit c2" "ascii_digit c3" "ascii_digit c4"
      "ascii_digit c5" "ascii_digit c6" "ascii_digit c7" "ascii_digit c8"
  shows "(Birthday [c1, c2, 46, c3, c4, 46, c5, c6, c7, c8]
            = Inr [c1, c2, 46, c3, c4, 46, c5, c6, c7, c8])
         = real_date (ascii_num [c5, c6, c7, c8]) (ascii_num [c3, c4]) (ascii_num [c1, c2])"
proof -
  define s where "s = [c1, c2, 46, c3, c4, 46, c5, c6, c7, c8]"
  define Y where "Y = 1000 * (c5 - 48) + 100 * (c6 - 48) + 10 * (c7 - 48) + (c8 - 48)"
  define M where "M = 10 * (c3 - 48) + (c4 - 48)"
  define D where "D = 10 * (c1 - 48) + (c2 - 48)"
  have n: "ascii_num [c5, c6, c7, c8] = Y" "ascii_num [c3, c4] = M" "ascii_num [c1, c2] = D"
    by (simp_all add: ascii_num_def Y_def M_def D_def)
  have y: "Y \<le> 9999" using c(5-8) by (simp add: Y_def ascii_digit_def)
  have "strptime [48 + (c1 - 48), 48 + (c2 - 48), 46, 48 + (c3 - 48), 48 + (c4 - 48), 46,
                  48 + (c5 - 48), 48 + (c6 - 48), 48 + (c7 - 48), 48 + (c8 - 48)]
         = (if 1 \<le> D \<and> D \<le> 31 \<and> 1 \<le> M \<and> M \<le> 12 then date_new Y M D
            else Inl (ValueError ''time data does not match format''))"
    unfolding Y_def M_def D_def
    by (rule strptime_strict) (use c in \<open>simp_all add: ascii_digit_def\<close>)
  then have st: "strptime s
         = (if 1 \<le> D \<and> D \<le> 31 \<and> 1 \<le> M \<and> M \<le> 12 then date_new Y M D
            else Inl (ValueError ''time data does not match format''))"
    by (simp add: s_def)
  have "(Birthday s = Inr s) = real_date Y M D"
  proof (cases "real_date Y M D")
    case True
    then have md: "1 \<le> M" "M \<le> 12" "1 \<le> D" "D \<le> days_in_month Y M"
      by (simp_all add: real_date_def)
    from md(4) days_in_month_le_31 [OF md(1,2), of Y] have "D \<le> 31" by linarith
    with True md have "strptime s = Inr \<lparr>year = Y, month = M, day = D\<rparr>"
      unfolding st by (simp add: date_new_def real_date_def)
    with True show ?thesis by (simp add: Birthday_cases)
  next
    case False
    have "\<exists>e. strptime s = Inl e"
    proof (cases "1 \<le> D \<and> D \<le> 31 \<and> 1 \<le> M \<and> M \<le> 12")
      case True
      with False y have "\<exists>e. date_new Y M D = Inl e"
        by (auto simp: date_new_def real_date_def)
      with True show ?thesis unfolding st by simp
    next
      case False
      then show ?thesis unfolding st by auto
    qed
    with False show ?thesis by (auto simp: Birthday_cases)
  qed
  then show ?thesis by (simp only: n s_def)
qed

lemma not_decimal_dot_space: "\<not> char_isdecimal 46" "\<not> char_isdecimal 32"
  by (simp_all add: char_isdecimal_def unicode_decimal_ranges_def)

lemma decimal_not_dot_space: "char_isdecimal c \<Longrightarrow> c \<noteq> 46 \<and> c \<noteq> 32"
  using not_decimal_dot_space by auto

lemma ascii_char_isdecimal: "48 \<le> c \<Longrightarrow> c \<le> 57 \<Longrightarrow> char_isdecimal c"
  by (simp add: char_isdecimal_def unicode_decimal_ranges_def)

lemma cls_set: "(t, r) \<in> set (cls P s) \<longleftrightarrow> (\<exists>c. t = [c] \<and> P c \<and> s = c # r)"
  by (auto simp: cls_def split: list.splits if_splits)

lemma chr_set: "(t, r) \<in> set (chr a s) \<longleftrightarrow> t = [a] \<and> s = a # r"
  by (auto simp: chr_def cls_set)

lemma rng_set: "(t, r) \<in> set (rng lo hi s) \<longleftrightarrow> (\<exists>c. t = [c] \<and> lo \<le> c \<and> c \<le> hi \<and> s = c # r)"
  by (auto simp: rng_def cls_set)

lemma re_seq_set:
  "(t, r) \<in> set (re_seq p q s)
     \<longleftrightarrow> (\<exists>a r1 b. (a, r1) \<in> set (p s) \<and> (b, r) \<in> set (q r1) \<and> t = a @ b)"
  by (force simp: re_seq_def)

lemma re_alt_set: "x \<in> set (re_alt p q s) \<longleftrightarrow> x \<in> set (p s) \<or> x \<in> set (q s)"
  by (simp add: re_alt_def)

lemma re_d_sound: "(t, r) \<in> set (re_d s) \<Longrightarrow> s = t @ r \<and> day_text t"
  by (auto simp: re_d_def re_alt_set re_seq_set chr_set rng_set cls_set)

lemma re_m_sound: "(t, r) \<in> set (re_m s) \<Longrightarrow> s = t @ r \<and> month_text t"
  by (auto simp: re_m_def re_alt_set re_seq_set chr_set rng_set cls_set)

lemma re_Y_sound: "(t, r) \<in> set (re_Y s) \<Longrightarrow> s = t @ r \<and> year_text t"
  by (auto simp: re_Y_def re_seq_set cls_set)

lemma first_found: "(case xs of [] \<Rightarrow> None | found # _ \<Rightarrow> Some found) = Some z \<Longrightarrow> z \<in> set xs"
  by (cases xs) auto

lemma format_regex_match_sound:
  assumes "format_regex_match s = Some (d, m, y, r)"
  shows "s = d @ 46 # m @ 46 # y @ r \<and> day_text d \<and> month_text m \<and> year_text y"
proof -
  from assms have "(d, m, y, r) \<in> set (concat (map (\<lambda>(d, r1). concat (map (\<lambda>(dot1, r2).
      concat (map (\<lambda>(m, r3). concat (map (\<lambda>(dot2, r4). map (\<lambda>(y, r5). (d, m, y, r5)) (re_Y r4))
        (chr 46 r3))) (re_m r2))) (chr 46 r1))) (re_d s)))"
    unfolding format_regex_match_def by (rule first_found)
  then obtain r1 r2 r3 r4 dot1 dot2 where
    "(d, r1) \<in> set (re_d s)" "(dot1, r2) \<in> set (chr 46 r1)" "(m, r3) \<in> set (re_m r2)"
    "(dot2, r4) \<in> set (chr 46 r3)" "(y, r) \<in> set (re_Y r4)"
    by auto
  then show ?thesis
    by (auto simp: chr_set dest!: re_d_sound re_m_sound re_Y_sound)
qed

lemma re_d_complete:
  assumes "day_text D"
  shows "concat (map (\<lambda>(d, r1). concat (map (\<lambda>(dot1, r2). G d r2) (chr 46 r1)))
           (re_d (D @ 46 # rest))) = G D rest"
proof -
  note ds = re_d_def re_alt_def re_seq_def chr_def rng_def cls_def
  from assms consider a where "D = [a]" "49 \<le> a" "a \<le> 57"
    | b where "D = [51, b]" "48 \<le> b" "b \<le> 49"
    | a b where "D = [a, b]" "49 \<le> a" "a \<le> 50" "char_isdecimal b"
    | b where "D = [48, b]" "49 \<le> b" "b \<le> 57"
    | b where "D = [32, b]" "49 \<le> b" "b \<le> 57"
    by (auto elim!: day_text.elims(2))
  then show ?thesis
  proof cases
    case 1
    then show ?thesis using not_decimal_dot_space by (auto simp: ds)
  next
    case 2
    then show ?thesis by (auto simp: ds)
  next
    case 3
    with decimal_not_dot_space [of b] show ?thesis by (auto simp: ds)
  next
    case 4
    then show ?thesis by (auto simp: ds)
  next
    case 5
    then show ?thesis by (auto simp: ds)
  qed
qed

lemma re_m_complete:
  assumes "month_text M"
  shows "concat (map (\<lambda>(m, r3). concat (map (\<lambda>(dot2, r4). G m r4) (chr 46 r3)))
           (re_m (M @ 46 # rest))) = G M rest"
proof -
  note ds = re_m_def re_alt_def re_seq_def chr_def rng_def cls_def
  from assms consider a where "M = [a]" "49 \<le> a" "a \<le> 57"
    | b where "M = [49, b]" "48 \<le> b" "b \<le> 50"
    | b where "M = [48, b]" "49 \<le> b" "b \<le> 57"
    by (auto elim!: month_text.elims(2))
  then show ?thesis
    by cases (auto simp: ds)
qed

lemma re_Y_complete: "year_text Y \<Longrightarrow> re_Y Y = [(Y, [])]"
  by (auto elim!: year_text.elims(2) simp: re_Y_def re_seq_def cls_def)

lemma format_regex_match_complete:
  assumes "day_text D" "month_text M" "year_text Y"
  shows "format_regex_match (D @ 46 # M @ 46 # Y) = Some (D, M, Y, [])"
  unfolding format_regex_match_def
  by (simp add: re_d_complete [OF assms(1)] re_m_complete [OF assms(2)]
      re_Y_complete [OF assms(3)])

lemma py_int_day_text: "day_text D \<Longrightarrow> py_int D = Inr (text_num D)"
  using not_decimal_dot_space
  by (auto elim!: day_text.elims(2) dest: decimal_not_dot_space
      simp: py_int_def text_num_def ascii_char_isdecimal)

lemma py_int_month_text: "month_text M \<Longrightarrow> py_int M = Inr (text_num M)"
  by (auto elim!: month_text.elims(2) simp: py_int_def text_num_def ascii_char_isdecimal)

lemma py_int_year_text: "year_text Y \<Longrightarrow> py_int Y = Inr (text_num Y)"
  by (auto elim!: year_text.elims(2) dest: decimal_not_dot_space
      simp: py_int_def text_num_def)

lemma strptime_Inr_iff:
  "strptime s = Inr bday \<longleftrightarrow>
     (\<exists>D M Y. s = D @ 46 # M @ 46 # Y \<and> day_text D \<and> month_text M \<and> year_text Y
        \<and> real_date (text_num Y) (text_num M) (text_num D)
        \<and> bday = \<lparr>year = text_num Y, month = text_num M, day = text_num D\<rparr>)"
proof
  assume a: "strptime s = Inr bday"
  then obtain d m y r where f: "format_regex_match s = Some (d, m, y, r)"
    by (auto simp: strptime_def split: option.splits)
  with a have r: "r = []"
    by (auto simp: strptime_def split: if_splits)
  from format_regex_match_sound [OF f] r
  have s: "s = d @ 46 # m @ 46 # y" and t: "day_text d" "month_text m" "year_text y"
    by simp_all
  from a f r have "date_new (text_num y) (text_num m) (text_num d) = Inr bday"
    by (simp add: strptime_def py_int_day_text [OF t(1)] py_int_month_text [OF t(2)]
        py_int_year_text [OF t(3)])
  then have "real_date (text_num y) (text_num m) (text_num d)"
    and "bday = \<lparr>year = text_num y, month = text_num m, day = text_num d\<rparr>"
    by (auto simp: date_new_Inr real_date_def)
  with s t show "\<exists>D M Y. s = D @ 46 # M @ 46 # Y \<and> day_text D \<and> month_text M \<and> year_text Y
        \<and> real_date (text_num Y) (text_num M) (text_num D)
        \<and> bday = \<lparr>year = text_num Y, month = text_num M, day = text_num D\<rparr>"
    by blast
next
  assume "\<exists>D M Y. s = D @ 46 # M @ 46 # Y \<and> day_text D \<and> month_text M \<and> year_text Y
        \<and> real_date (text_num Y) (text_num M) (text_num D)
        \<and> bday = \<lparr>year = text_num Y, month = text_num M, day = text_num D\<rparr>"
  then obtain D M Y where s: "s = D @ 46 # M @ 46 # Y"
    and t: "day_text D" "month_text M" "year_text Y"
    and r: "real_date (text_num Y) (text_num M) (text_num D)"
    and b: "bday = \<lparr>year = text_num Y, month = text_num M, day = text_num D\<rparr>"
    by blast
  from r have "date_new (text_num Y) (text_num M) (text_num D) = Inr bday"
    by (simp add: date_new_def real_date_def b)
  then show "strptime s = Inr bday"
    unfolding s strptime_def format_regex_match_complete [OF t]
    by (simp add: py_int_day_text [OF t(1)] py_int_month_text [OF t(2)]
        py_int_year_text [OF t(3)])
qed

lemma text_lengths:
  "day_text D \<Longrightarrow> 1 \<le> length D \<and> length D \<le> 2"
  "month_text M \<Longrightarrow> 1 \<le> length M \<and> length M \<le> 2"
  "year_text Y \<Longrightarrow> length Y = 4"
  by (auto elim!: day_text.elims(2) month_text.elims(2) year_text.elims(2))

lemma text_no_dot:
  "day_text D \<Longrightarrow> count_list D 46 = 0"
  "month_text M \<Longrightarrow> count_list M 46 = 0"
  "year_text Y \<Longrightarrow> count_list Y 46 = 0"
  by (auto elim!: day_text.elims(2) month_text.elims(2) year_text.elims(2)
      dest: decimal_not_dot_space)

lemma Birthday_Inr_iff:
  "(Birthday s = Inr s)
     = (\<exists>D M Y. s = D @ 46 # M @ 46 # Y \<and> day_text D \<and> month_text M \<and> year_text Y
          \<and> real_date (text_num Y) (text_num M) (text_num D))"
proof -
  have "(Birthday s = Inr s) = (\<exists>bday. strptime s = Inr bday)"
    by (auto simp: Birthday_cases split: sum.splits)
  also have "\<dots> = (\<exists>D M Y. s = D @ 46 # M @ 46 # Y \<and> day_text D \<and> month_text M \<and> year_text Y
          \<and> real_date (text_num Y) (text_num M) (text_num D))"
    unfolding strptime_Inr_iff by blast
  finally show ?thesis .
qed

text \<open>
  Claim C4, as amended. The \<open>Birthday\<close> constructor either stores the string unchanged
  or raises the \<open>ValueError\<close> of the source, and over all strings it succeeds exactly when
  the string is a day text, a full stop, a month text, a full stop and a year text, with
  nothing before, between or after them, and the three numbers are a real date of the
  Gregorian calendar with a year from 1 to 9999. So a string it accepts has 8 to 10
  characters, exactly two full stops, and ends in four decimal digits, and it parses to
  such a date; and on a string of the strict shape \<open>DD.MM.YYYY\<close> the constructor succeeds
  exactly when the digits are such a date. The instance that follows has the impossible
  dates of the specification, 31.02.2024 and 00.01.2020, the leap day 29.02.2024, and
  strings of another shape that are refused: trailing data, other separators, a year of
  two or of five digits, the empty string.
\<close>

theorem Birthday_real_dates:
  "(Birthday s = Inr s
      \<or> Birthday s = Inl (ValueError
           ''Invalid date. Ensure the date is valid and in DD.MM.YYYY format''))
   \<and> (Birthday s = Inr s)
       = (\<exists>D M Y. s = D @ 46 # M @ 46 # Y \<and> day_text D \<and> month_text M \<and> year_text Y
            \<and> real_date (text_num Y) (text_num M) (text_num D))
   \<and> (Birthday s = Inr s \<longrightarrow>
        8 \<le> length s \<and> length s \<le> 10 \<and> count_list s 46 = 2
        \<and> year_text (drop (length s - 4) s))
   \<and> (Birthday s = Inr s \<longrightarrow>
        (\<exists>bday. strptime s = Inr bday \<and> real_date (year bday) (month bday) (day bday)))
   \<and> (ddmmyyyy_shape s \<longrightarrow>
        (Birthday s = Inr s)
          = real_date (ascii_num (drop 6 s)) (ascii_num (take 2 (drop 3 s))) (ascii_num (take 2 s)))"
proof (intro conjI impI)
  show "Birthday s = Inr s
      \<or> Birthday s = Inl (ValueError
           ''Invalid date. Ensure the date is valid and in DD.MM.YYYY format'')"
    by (simp add: Birthday_cases split: sum.splits)
next
  show "(Birthday s = Inr s)
       = (\<exists>D M Y. s = D @ 46 # M @ 46 # Y \<and> day_text D \<and> month_text M \<and> year_text Y
            \<and> real_date (text_num Y) (text_num M) (text_num D))"
    by (rule Birthday_Inr_iff)
next
  assume "Birthday s = Inr s"
  then obtain D M Y where s: "s = D @ 46 # M @ 46 # Y"
    and t: "day_text D" "month_text M" "year_text Y"
    unfolding Birthday_Inr_iff by blast
  note l = text_lengths(1) [OF t(1)] text_lengths(2) [OF t(2)] text_lengths(3) [OF t(3)]
  from l show "8 \<le> length s" and "length s \<le> 10"
    by (simp_all add: s)
  show "count_list s 46 = 2"
    by (simp add: s text_no_dot(1) [OF t(1)] text_no_dot(2) [OF t(2)] text_no_dot(3) [OF t(3)])
  from l have "drop (length s - 4) s = Y"
    by (simp add: s)
  with t(3) show "year_text (drop (length s - 4) s)"
    by simp
next
  assume "Birthday s = Inr s"
  then obtain bday where "strptime s = Inr bday"
    by (auto simp: Birthday_cases split: sum.splits)
  then show "\<exists>bday. strptime s = Inr bday \<and> real_date (year bday) (month bday) (day bday)"
    using strptime_Inr_real by blast
next
  assume "ddmmyyyy_shape s"
  then show "(Birthday s = Inr s)
          = real_date (ascii_num (drop 6 s)) (ascii_num (take 2 (drop 3 s))) (ascii_num (take 2 s))"
    by (elim ddmmyyyy_shape.elims(2)) (simp add: Birthday_strict_chars)
qed

theorem Birthday_real_dates_witness:
  "ddmmyyyy_shape (lit ''31.02.2024'')
   \<and> Birthday (lit ''31.02.2024'')
       = Inl (ValueError ''Invalid date. Ensure the date is valid and in DD.MM.YYYY format'')
   \<and> ddmmyyyy_shape (lit ''00.01.2020'')
   \<and> Birthday (lit ''00.01.2020'')
       = Inl (ValueError ''Invalid date. Ensure the date is valid and in DD.MM.YYYY format'')
   \<and> ddmmyyyy_shape (lit ''29.02.2024'')
   \<and> Birthday (lit ''29.02.2024'') = Inr (lit ''29.02.2024'')
   \<and> lit ''29.02.2024'' = lit ''29'' @ 46 # lit ''02'' @ 46 # lit ''2024''
   \<and> day_text (lit ''29'') \<and> month_text (lit ''02'') \<and> year_text (lit ''2024'')
   \<and> real_date (text_num (lit ''2024'')) (text_num (lit ''02'')) (text_num (lit ''29''))
   \<and> count_list (lit ''29.02.2024'') 46 = 2
   \<and> year_text (drop (length (lit ''29.02.2024'') - 4) (lit ''29.02.2024''))
   \<and> strptime (lit ''29.02.2024'') = Inr \<lparr>year = 2024, month = 2, day = 29\<rparr>
   \<and> Birthday (lit ''01.01.2024junk'')
       = Inl (ValueError ''Invalid date. Ensure the date is valid and in DD.MM.YYYY format'')
   \<and> Birthday (lit ''2024-01-01'')
       = Inl (ValueError ''Invalid date. Ensure the date is valid and in DD.MM.YYYY format'')
   \<and> Birthday (lit ''01/01/2024'')
       = Inl (ValueError ''Invalid date. Ensure the date is valid and in DD.MM.YYYY format'')
   \<and> Birthday (lit ''01.01.24'')
       = Inl (ValueError ''Invalid date. Ensure the date is valid and in DD.MM.YYYY format'')
   \<and> Birthday (lit ''31.12.20245'')
       = Inl (ValueError ''Invalid date. Ensure the date is valid and in DD.MM.YYYY format'')
   \<and> Birthday []
       = Inl (ValueError ''Invalid date. Ensure the date is valid and in DD.MM.YYYY format'')"
proof -
  have s1: "ddmmyyyy_shape (lit ''31.02.2024'')"
    and s2: "ddmmyyyy_shape (lit ''00.01.2020'')"
    and s3: "ddmmyyyy_shape (lit ''29.02.2024'')"
    by code_simp+
  have r1: "\<not> real_date (ascii_num (drop 6 (lit ''31.02.2024'')))
      (ascii_num (take 2 (drop 3 (lit ''31.02.2024'')))) (ascii_num (take 2 (lit ''31.02.2024'')))"
    by code_simp
  have r2: "\<not> real_date (ascii_num (drop 6 (lit ''00.01.2020'')))
      (ascii_num (take 2 (drop 3 (lit ''00.01.2020'')))) (ascii_num (take 2 (lit ''00.01.2020'')))"
    by code_simp
  have e3: "lit ''29.02.2024'' = lit ''29'' @ 46 # lit ''02'' @ 46 # lit ''2024''"
    by code_simp
  have t3: "day_text (lit ''29'')" "month_text (lit ''02'')" "year_text (lit ''2024'')"
    by code_simp+
  have r3: "real_date (text_num (lit ''2024'')) (text_num (lit ''02'')) (text_num (lit ''29''))"
    by code_simp
  have p3: "strptime (lit ''29.02.2024'') = Inr \<lparr>year = 2024, month = 2, day = 29\<rparr>"
    by code_simp
  have l1: "\<not> length (lit ''01.01.2024junk'') \<le> 10"
    and l2: "\<not> year_text (drop (length (lit ''2024-01-01'') - 4) (lit ''2024-01-01''))"
    and l3: "count_list (lit ''01/01/2024'') 46 \<noteq> 2"
    and l4: "\<not> year_text (drop (length (lit ''01.01.24'') - 4) (lit ''01.01.24''))"
    and l5: "\<not> length (lit ''31.12.20245'') \<le> 10"
    and l6: "\<not> 8 \<le> length ([] :: pystr)"
    by code_simp+
  from Birthday_real_dates [of "lit ''31.02.2024''"] s1 r1
  have b1: "Birthday (lit ''31.02.2024'')
       = Inl (ValueError ''Invalid date. Ensure the date is valid and in DD.MM.YYYY format'')"
    by blast
  from Birthday_real_dates [of "lit ''00.01.2020''"] s2 r2
  have b2: "Birthday (lit ''00.01.2020'')
       = Inl (ValueError ''Invalid date. Ensure the date is valid and in DD.MM.YYYY format'')"
    by blast
  from e3 t3 r3 have "\<exists>D M Y. lit ''29.02.2024'' = D @ 46 # M @ 46 # Y \<and> day_text D
      \<and> month_text M \<and> year_text Y \<and> real_date (text_num Y) (text_num M) (text_num D)"
    by blast
  with Birthday_real_dates [of "lit ''29.02.2024''"]
  have b3: "Birthday (lit ''29.02.2024'') = Inr (lit ''29.02.2024'')"
    and c3: "count_list (lit ''29.02.2024'') 46 = 2"
    and y3: "year_text (drop (length (lit ''29.02.2024'') - 4) (lit ''29.02.2024''))"
    by blast+
  from Birthday_real_dates [of "lit ''01.01.2024junk''"] l1
  have n1: "Birthday (lit ''01.01.2024junk'')
       = Inl (ValueError ''Invalid date. Ensure the date is valid and in DD.MM.YYYY format'')"
    by blast
  from Birthday_real_dates [of "lit ''2024-01-01''"] l2
  have n2: "Birthday (lit ''2024-01-01'')
       = Inl (ValueError ''Invalid date. Ensure the date is valid and in DD.MM.YYYY format'')"
    by blast
  from Birthday_real_dates [of "lit ''01/01/2024''"] l3
  have n3: "Birthday (lit ''01/01/2024'')
       = Inl (ValueError ''Invalid date. Ensure the date is valid and in DD.MM.YYYY format'')"
    by blast
  from Birthday_real_dates [of "lit ''01.01.24''"] l4
  have n4: "Birthday (lit ''01.01.24'')
       = Inl (ValueError ''Invalid date. Ensure the date is valid and in DD.MM.YYYY format'')"
    by blast
  from Birthday_real_dates [of "lit ''31.12.20245''"] l5
  have n5: "Birthday (lit ''31.12.20245'')
       = Inl (ValueError ''Invalid date. Ensure the date is valid and in DD.MM.YYYY format'')"
    by blast
  from Birthday_real_dates [of "[]"] l6
  have n6: "Birthday []
       = Inl (ValueError ''Invalid date. Ensure the date is valid and in DD.MM.YYYY format'')"
    by blast
  from s1 s2 s3 b1 b2 b3 e3 t3 r3 c3 y3 p3 n1 n2 n3 n4 n5 n6 show ?thesis
    by (intro conjI)
qed

text \<open>
  The strict shape is not required: \<open>%d\<close> and \<open>%m\<close> also match a single digit, so the
  constructor accepts \<open>1.1.2024\<close>.
\<close>

theorem Birthday_accepts_one_digit_day_and_month:
  "Birthday (lit ''1.1.2024'') = Inr (lit ''1.1.2024'') \<and> \<not> ddmmyyyy_shape (lit ''1.1.2024'')"
  by code_simp

lemma dec_str_1: "n < 10 \<Longrightarrow> dec_str n = [48 + int n]"
  by (subst dec_str.simps) simp

lemma dec_str_2:
  "10 \<le> n \<Longrightarrow> n < 100 \<Longrightarrow> dec_str n = [48 + int (n div 10), 48 + int (n mod 10)]"
  by (subst dec_str.simps) (simp add: dec_str_1)

lemma dec_str_3:
  "100 \<le> n \<Longrightarrow> n < 1000 \<Longrightarrow>
   dec_str n = [48 + int (n div 10 div 10), 48 + int (n div 10 mod 10), 48 + int (n mod 10)]"
  by (subst dec_str.simps) (simp add: dec_str_2)

lemma dec_str_4:
  "1000 \<le> n \<Longrightarrow> n < 10000 \<Longrightarrow>
   dec_str n = [48 + int (n div 10 div 10 div 10), 48 + int (n div 10 div 10 mod 10),
                48 + int (n div 10 mod 10), 48 + int (n mod 10)]"
  by (subst dec_str.simps) (simp add: dec_str_3)

lemma zfill2_digits:
  assumes "0 \<le> k" "k < 100"
  shows "zfill2 (nat k) = [48 + k div 10, 48 + k mod 10]"
proof (cases "k < 10")
  case True
  with assms show ?thesis by (simp add: zfill2_def dec_str_1)
next
  case False
  with assms have n: "10 \<le> nat k" "nat k < 100" by simp_all
  have "dec_str (nat k) = [48 + k div 10, 48 + k mod 10]"
    using dec_str_2 [OF n] assms by (simp add: zdiv_int zmod_int)
  moreover from n have "\<not> nat k < 10" by simp
  ultimately show ?thesis by (simp only: zfill2_def if_False)
qed

lemma strftime_digits:
  assumes "real_date y m d" "1000 \<le> y"
  shows "strftime \<lparr>year = y, month = m, day = d\<rparr>
         = [48 + d div 10, 48 + d mod 10, 46, 48 + m div 10, 48 + m mod 10, 46,
            48 + y div 10 div 10 div 10, 48 + y div 10 div 10 mod 10, 48 + y div 10 mod 10,
            48 + y mod 10]"
proof -
  from assms(1) have y: "y \<le> 9999" and m: "1 \<le> m" "m \<le> 12"
    and d: "1 \<le> d" "d \<le> days_in_month y m"
    by (simp_all add: real_date_def)
  from days_in_month_le_31 [OF m, of y] d have d31: "d \<le> 31" by simp
  have "1000 \<le> nat y" "nat y < 10000" using assms(2) y by simp_all
  from dec_str_4 [OF this] assms(2)
  have "dec_str (nat y) = [48 + y div 10 div 10 div 10, 48 + y div 10 div 10 mod 10,
                           48 + y div 10 mod 10, 48 + y mod 10]"
    by (simp add: zdiv_int zmod_int)
  moreover have "zfill2 (nat d) = [48 + d div 10, 48 + d mod 10]"
    using d d31 by (intro zfill2_digits) simp_all
  moreover have "zfill2 (nat m) = [48 + m div 10, 48 + m mod 10]"
    using m by (intro zfill2_digits) simp_all
  ultimately show ?thesis by (simp add: strftime_def lit_def)
qed

lemma strptime_strftime:
  assumes "real_date (year cd) (month cd) (day cd)" "1000 \<le> year cd"
  shows "ddmmyyyy_shape (strftime cd)" and "strptime (strftime cd) = Inr cd"
proof -
  define y where "y = year cd"
  define m where "m = month cd"
  define d where "d = day cd"
  have cd: "cd = \<lparr>year = y, month = m, day = d\<rparr>" by (simp add: y_def m_def d_def)
  from assms have r: "real_date y m d" and y1000: "1000 \<le> y"
    by (simp_all add: y_def m_def d_def)
  then have y: "y \<le> 9999" and mm: "1 \<le> m" "m \<le> 12"
    and dd: "1 \<le> d" "d \<le> days_in_month y m"
    by (simp_all add: real_date_def)
  from days_in_month_le_31 [OF mm, of y] dd have d31: "d \<le> 31" by simp
  define d1 where "d1 = d div 10"
  define d2 where "d2 = d mod 10"
  define m1 where "m1 = m div 10"
  define m2 where "m2 = m mod 10"
  define y1 where "y1 = y div 10 div 10 div 10"
  define y2 where "y2 = y div 10 div 10 mod 10"
  define y3 where "y3 = y div 10 mod 10"
  define y4 where "y4 = y mod 10"
  have s: "strftime cd = [48 + d1, 48 + d2, 46, 48 + m1, 48 + m2, 46,
                          48 + y1, 48 + y2, 48 + y3, 48 + y4]"
    unfolding cd d1_def d2_def m1_def m2_def y1_def y2_def y3_def y4_def
    using r y1000 by (rule strftime_digits)
  have rd: "0 \<le> d1" "d1 \<le> 9" "0 \<le> d2" "d2 \<le> 9"
    using dd(1) d31 zdiv_mono1 [of 0 d 10] zdiv_mono1 [of d 31 10]
    by (simp_all add: d1_def d2_def)
  have rm: "0 \<le> m1" "m1 \<le> 9" "0 \<le> m2" "m2 \<le> 9"
    using mm zdiv_mono1 [of 0 m 10] zdiv_mono1 [of m 12 10]
    by (simp_all add: m1_def m2_def)
  have "0 \<le> y div 10 div 10 div 10" "y div 10 div 10 div 10 \<le> 9"
    using y1000 y zdiv_mono1 [of 0 y 1000] zdiv_mono1 [of y 9999 1000]
    by (simp_all add: zdiv_zmult2_eq [symmetric])
  then have ry: "0 \<le> y1" "y1 \<le> 9" "0 \<le> y2" "y2 \<le> 9" "0 \<le> y3" "y3 \<le> 9"
    "0 \<le> y4" "y4 \<le> 9"
    by (simp_all add: y1_def y2_def y3_def y4_def)
  have ed: "10 * d1 + d2 = d" by (simp add: d1_def d2_def)
  have em: "10 * m1 + m2 = m" by (simp add: m1_def m2_def)
  have "10 * (y div 10 div 10) + y3 = y div 10" by (simp add: y3_def)
  moreover have "10 * y1 + y2 = y div 10 div 10" by (simp add: y1_def y2_def)
  moreover have "10 * (y div 10) + y4 = y" by (simp add: y4_def)
  ultimately have ey: "1000 * y1 + 100 * y2 + 10 * y3 + y4 = y" by linarith
  show "ddmmyyyy_shape (strftime cd)"
    unfolding s using rd rm ry by (simp add: ascii_digit_def)
  have "strptime (strftime cd)
         = (if 1 \<le> 10 * d1 + d2 \<and> 10 * d1 + d2 \<le> 31 \<and> 1 \<le> 10 * m1 + m2 \<and> 10 * m1 + m2 \<le> 12
            then date_new (1000 * y1 + 100 * y2 + 10 * y3 + y4) (10 * m1 + m2) (10 * d1 + d2)
            else Inl (ValueError ''time data does not match format''))"
    unfolding s
    by (rule strptime_strict [OF rd(1) rd(2) rd(3) rd(4) rm(1) rm(2) rm(3) rm(4)
          ry(1) ry(2) ry(3) ry(4) ry(5) ry(6) ry(7) ry(8)])
  then show "strptime (strftime cd) = Inr cd"
    unfolding ed em ey using dd d31 mm y y1000 by (simp add: date_new_def cd)
qed

section \<open>Upcoming birthdays\<close>

lemma upcoming_loop_Inl:
  "upcoming_loop today rs acc = Inl e \<Longrightarrow> \<exists>r \<in> set rs. upcoming_item today r = Inl e"
  by (induction rs arbitrary: acc) (auto split: sum.splits option.splits)

lemma upcoming_loop_raises:
  "r \<in> set rs \<Longrightarrow> upcoming_item today r = Inl e \<Longrightarrow> \<exists>e'. upcoming_loop today rs acc = Inl e'"
  by (induction rs arbitrary: acc) (auto split: sum.splits option.splits)

lemma upcoming_loop_Inr:
  "upcoming_loop today rs acc = Inr res \<Longrightarrow>
     res = acc @ concat (map (\<lambda>r. case upcoming_item today r of
                                     Inr (Some item) \<Rightarrow> [item] | _ \<Rightarrow> []) rs)"
proof (induction rs arbitrary: acc)
  case Nil
  then show ?case by simp
next
  case (Cons r rs)
  show ?case
  proof (cases "upcoming_item today r")
    case (Inl e)
    with Cons.prems show ?thesis by simp
  next
    case (Inr x)
    show ?thesis
    proof (cases x)
      case None
      with Cons Inr show ?thesis by simp
    next
      case (Some item)
      with Cons.prems Inr have "upcoming_loop today rs (acc @ [item]) = Inr res" by simp
      from Cons.IH [OF this] Inr Some show ?thesis by simp
    qed
  qed
qed

lemma upcoming_item_Some:
  assumes "upcoming_item today record = Inr (Some item)"
  shows "\<exists>v bday occ cd. birthday record = Some v \<and> strptime v = Inr bday
           \<and> bday_this_year today bday = Inr occ
           \<and> 0 \<le> sub_days occ today \<and> sub_days occ today \<le> 7
           \<and> congratulation_date occ = Inr cd
           \<and> item = [(lit ''name'', name record), (lit ''birthday'', strftime cd)]"
  using assms
  by (auto simp: upcoming_item_def Let_def split: option.splits sum.splits if_splits)

text \<open>
  Claim C10. When the book holds a record whose birthday is a 29 February and the year
  of \<open>today\<close> is not a leap year, \<open>get_upcoming_birthdays\<close> raises a \<open>ValueError\<close> and
  returns no list: \<open>replace\<close> cannot build 29 February of that year, and nothing in the
  loop catches the exception.
\<close>

theorem feb29_birthday_raises:
  assumes "\<not> is_leap (year today)"
    and "record \<in> set (dict_values data)"
    and "birthday record = Some v"
    and "strptime v = Inr bday"
    and "month bday = 2" and "day bday = 29"
  shows "\<exists>msg. get_upcoming_birthdays today data = Inl (ValueError msg)"
proof -
  have "days_in_month (year today) 2 = 28"
    using assms(1) by (simp add: days_in_month_def DAYS_IN_MONTH_def)
  then have "\<exists>e. replace_year bday (year today) = Inl e"
    using assms(5,6) by (simp add: replace_year_def date_new_def)
  then have "\<exists>e. bday_this_year today bday = Inl e"
    by (auto simp: bday_this_year_def)
  then have "\<exists>e. upcoming_item today record = Inl e"
    using assms(3,4) by (auto simp: upcoming_item_def)
  then obtain e' where e': "upcoming_loop today (dict_values data) [] = Inl e'"
    using upcoming_loop_raises [OF assms(2)] by blast
  from upcoming_loop_Inl [OF e'] obtain r where "upcoming_item today r = Inl e'" by blast
  from upcoming_item_ValueError [OF this] e' show ?thesis
    by (auto simp: get_upcoming_birthdays_def)
qed

theorem feb29_birthday_raises_witness:
  "\<not> is_leap (year \<lparr>year = 2025, month = 6, day = 10\<rparr>)
   \<and> strptime (lit ''29.02.2024'') = Inr \<lparr>year = 2024, month = 2, day = 29\<rparr>
   \<and> (\<exists>msg. get_upcoming_birthdays \<lparr>year = 2025, month = 6, day = 10\<rparr>
          [(lit ''Ann'', \<lparr>name = lit ''Ann'', phones = [], birthday = Some (lit ''29.02.2024'')\<rparr>)]
        = Inl (ValueError msg))"
proof -
  have a: "\<not> is_leap (year \<lparr>year = 2025, month = 6, day = 10\<rparr>)"
    by (simp add: is_leap_def)
  have b: "\<lparr>name = lit ''Ann'', phones = [], birthday = Some (lit ''29.02.2024'')\<rparr>
      \<in> set (dict_values
           [(lit ''Ann'', \<lparr>name = lit ''Ann'', phones = [], birthday = Some (lit ''29.02.2024'')\<rparr>)])"
    by (simp add: dict_values_def)
  have c: "birthday \<lparr>name = lit ''Ann'', phones = [], birthday = Some (lit ''29.02.2024'')\<rparr>
      = Some (lit ''29.02.2024'')"
    by simp
  have d: "strptime (lit ''29.02.2024'') = Inr \<lparr>year = 2024, month = 2, day = 29\<rparr>"
    by code_simp
  have e: "month \<lparr>year = 2024, month = 2, day = 29\<rparr> = 2"
    and f: "day \<lparr>year = 2024, month = 2, day = 29\<rparr> = 29"
    by simp_all
  from feb29_birthday_raises [OF a b c d e f] a d show ?thesis by blast
qed

text \<open>
  Claim C2. Every item of the result comes from a record with a birthday, and its
  congratulation date is the one the source computes from the date \<open>bday_this_year\<close> of
  that birthday. Both are dates of the calendar. The congratulation date is
  \<open>bday_this_year\<close> itself when that falls on Monday to Friday; it is the date 2 days
  later, a Monday, when that falls on a Saturday; and the date 1 day later, a Monday,
  when that falls on a Sunday. A date of the calendar is determined by its ordinal, so
  this fixes the congratulation date. From the year 1000 on, the text of the item has
  the shape \<open>DD.MM.YYYY\<close> and reads back as the congratulation date. The instance that
  follows is the example of the specification: on Monday 10.06.2024 a birthday on
  Saturday 15.06.2024 gives 17.06.2024, and one on Wednesday 12.06.2024 gives
  12.06.2024; and on Monday 24.06.2024 birthdays on Saturday 29.06 and Sunday 30.06
  both give 01.07.2024, across the end of the month.
\<close>

theorem congratulation_date_weekend_shift:
  assumes "get_upcoming_birthdays today data = Inr upcoming"
    and "item \<in> set upcoming"
  shows "\<exists>record v bday occ cd.
           record \<in> set (dict_values data) \<and> birthday record = Some v
         \<and> strptime v = Inr bday \<and> bday_this_year today bday = Inr occ
         \<and> congratulation_date occ = Inr cd
         \<and> item = [(lit ''name'', name record), (lit ''birthday'', strftime cd)]
         \<and> real_date (year occ) (month occ) (day occ)
         \<and> real_date (year cd) (month cd) (day cd)
         \<and> (weekday occ < 5 \<longrightarrow> cd = occ)
         \<and> (weekday occ = 5 \<longrightarrow> toordinal cd = toordinal occ + 2 \<and> weekday cd = 0)
         \<and> (weekday occ = 6 \<longrightarrow> toordinal cd = toordinal occ + 1 \<and> weekday cd = 0)
         \<and> (\<forall>d'::date. real_date (year d') (month d') (day d') \<and> toordinal d' = toordinal cd
                \<longrightarrow> d' = cd)
         \<and> (1000 \<le> year cd \<longrightarrow> ddmmyyyy_shape (strftime cd) \<and> strptime (strftime cd) = Inr cd)"
proof -
  from assms(1) have "upcoming = concat (map (\<lambda>r. case upcoming_item today r of
                                     Inr (Some item) \<Rightarrow> [item] | _ \<Rightarrow> []) (dict_values data))"
    using upcoming_loop_Inr [of today "dict_values data" "[]" upcoming]
    by (simp add: get_upcoming_birthdays_def)
  with assms(2) obtain r0 where r: "r0 \<in> set (dict_values data)"
    and it: "upcoming_item today r0 = Inr (Some item)"
    by (auto split: sum.splits option.splits)
  from upcoming_item_Some [OF it] obtain v bday occ cd where
    f: "birthday r0 = Some v" "strptime v = Inr bday" "bday_this_year today bday = Inr occ"
       "congratulation_date occ = Inr cd"
       "item = [(lit ''name'', name r0), (lit ''birthday'', strftime cd)]"
    by blast
  note v = bday_this_year_Inr(1) [OF f(3)]
  then have ro: "real_date (year occ) (month occ) (day occ)"
    by (simp add: real_date_date_new)
  from congratulation_date_real_date [OF ro f(4)]
  have rc: "real_date (year cd) (month cd) (day cd)" .
  have "1 \<le> toordinal occ" "toordinal occ \<le> MAXORDINAL"
    using toordinal_bounds [OF v] by simp_all
  from congratulation_date_cases [OF this] f(4)
  have sh: "(weekday occ < 5 \<longrightarrow> cd = occ)
         \<and> (weekday occ = 5 \<longrightarrow> toordinal cd = toordinal occ + 2 \<and> weekday cd = 0)
         \<and> (weekday occ = 6 \<longrightarrow> toordinal cd = toordinal occ + 1 \<and> weekday cd = 0)"
    by auto
  have un: "\<forall>d'::date. real_date (year d') (month d') (day d') \<and> toordinal d' = toordinal cd
                \<longrightarrow> d' = cd"
    using rc by (auto intro: toordinal_inj)
  have st: "1000 \<le> year cd \<longrightarrow> ddmmyyyy_shape (strftime cd) \<and> strptime (strftime cd) = Inr cd"
    using strptime_strftime [OF rc] by simp
  from r f ro rc sh un st show ?thesis by blast
qed

theorem congratulation_date_weekend_shift_witness:
  "get_upcoming_birthdays \<lparr>year = 2024, month = 6, day = 10\<rparr>
     [(lit ''Ann'', \<lparr>name = lit ''Ann'', phones = [], birthday = Some (lit ''15.06.2024'')\<rparr>),
      (lit ''Bob'', \<lparr>name = lit ''Bob'', phones = [], birthday = Some (lit ''12.06.2024'')\<rparr>)]
   = Inr [[(lit ''name'', lit ''Ann''), (lit ''birthday'', lit ''17.06.2024'')],
          [(lit ''name'', lit ''Bob''), (lit ''birthday'', lit ''12.06.2024'')]]
   \<and> weekday \<lparr>year = 2024, month = 6, day = 10\<rparr> = 0
   \<and> weekday \<lparr>year = 2024, month = 6, day = 15\<rparr> = 5
   \<and> weekday \<lparr>year = 2024, month = 6, day = 12\<rparr> = 2
   \<and> congratulation_date \<lparr>year = 2024, month = 6, day = 15\<rparr>
       = Inr \<lparr>year = 2024, month = 6, day = 17\<rparr>
   \<and> congratulation_date \<lparr>year = 2024, month = 6, day = 29\<rparr>
       = Inr \<lparr>year = 2024, month = 7, day = 1\<rparr>
   \<and> get_upcoming_birthdays \<lparr>year = 2024, month = 6, day = 24\<rparr>
       [(lit ''Cy'', \<lparr>name = lit ''Cy'', phones = [], birthday = Some (lit ''29.06.2000'')\<rparr>),
        (lit ''Di'', \<lparr>name = lit ''Di'', phones = [], birthday = Some (lit ''30.06.1999'')\<rparr>)]
     = Inr [[(lit ''name'', lit ''Cy''), (lit ''birthday'', lit ''01.07.2024'')],
            [(lit ''name'', lit ''Di''), (lit ''birthday'', lit ''01.07.2024'')]]
   \<and> (\<exists>record v bday occ cd.
           record \<in> set (dict_values
             [(lit ''Ann'', \<lparr>name = lit ''Ann'', phones = [], birthday = Some (lit ''15.06.2024'')\<rparr>),
              (lit ''Bob'', \<lparr>name = lit ''Bob'', phones = [], birthday = Some (lit ''12.06.2024'')\<rparr>)])
         \<and> birthday record = Some v
         \<and> strptime v = Inr bday
         \<and> bday_this_year \<lparr>year = 2024, month = 6, day = 10\<rparr> bday = Inr occ
         \<and> congratulation_date occ = Inr cd
         \<and> [(lit ''name'', lit ''Ann''), (lit ''birthday'', lit ''17.06.2024'')]
             = [(lit ''name'', name record), (lit ''birthday'', strftime cd)]
         \<and> real_date (year occ) (month occ) (day occ)
         \<and> real_date (year cd) (month cd) (day cd)
         \<and> (weekday occ < 5 \<longrightarrow> cd = occ)
         \<and> (weekday occ = 5 \<longrightarrow> toordinal cd = toordinal occ + 2 \<and> weekday cd = 0)
         \<and> (weekday occ = 6 \<longrightarrow> toordinal cd = toordinal occ + 1 \<and> weekday cd = 0)
         \<and> (\<forall>d'::date. real_date (year d') (month d') (day d') \<and> toordinal d' = toordinal cd
                \<longrightarrow> d' = cd)
         \<and> (1000 \<le> year cd \<longrightarrow> ddmmyyyy_shape (strftime cd) \<and> strptime (strftime cd) = Inr cd))"
proof -
  have a: "get_upcoming_birthdays \<lparr>year = 2024, month = 6, day = 10\<rparr>
     [(lit ''Ann'', \<lparr>name = lit ''Ann'', phones = [], birthday = Some (lit ''15.06.2024'')\<rparr>),
      (lit ''Bob'', \<lparr>name = lit ''Bob'', phones = [], birthday = Some (lit ''12.06.2024'')\<rparr>)]
   = Inr [[(lit ''name'', lit ''Ann''), (lit ''birthday'', lit ''17.06.2024'')],
          [(lit ''name'', lit ''Bob''), (lit ''birthday'', lit ''12.06.2024'')]]"
    by code_simp
  have b: "[(lit ''name'', lit ''Ann''), (lit ''birthday'', lit ''17.06.2024'')]
      \<in> set [[(lit ''name'', lit ''Ann''), (lit ''birthday'', lit ''17.06.2024'')],
              [(lit ''name'', lit ''Bob''), (lit ''birthday'', lit ''12.06.2024'')]]"
    by simp
  have w: "weekday \<lparr>year = 2024, month = 6, day = 10\<rparr> = 0"
    "weekday \<lparr>year = 2024, month = 6, day = 15\<rparr> = 5"
    "weekday \<lparr>year = 2024, month = 6, day = 12\<rparr> = 2"
    by code_simp+
  have c: "congratulation_date \<lparr>year = 2024, month = 6, day = 15\<rparr>
       = Inr \<lparr>year = 2024, month = 6, day = 17\<rparr>"
    "congratulation_date \<lparr>year = 2024, month = 6, day = 29\<rparr>
       = Inr \<lparr>year = 2024, month = 7, day = 1\<rparr>"
    by code_simp+
  have e: "get_upcoming_birthdays \<lparr>year = 2024, month = 6, day = 24\<rparr>
       [(lit ''Cy'', \<lparr>name = lit ''Cy'', phones = [], birthday = Some (lit ''29.06.2000'')\<rparr>),
        (lit ''Di'', \<lparr>name = lit ''Di'', phones = [], birthday = Some (lit ''30.06.1999'')\<rparr>)]
     = Inr [[(lit ''name'', lit ''Cy''), (lit ''birthday'', lit ''01.07.2024'')],
            [(lit ''name'', lit ''Di''), (lit ''birthday'', lit ''01.07.2024'')]]"
    by code_simp
  from congratulation_date_weekend_shift [OF a b] a w c e show ?thesis by blast
qed

text \<open>
  Whenever \<open>get_upcoming_birthdays\<close> returns a list, the names in it are those of the
  records with an upcoming birthday, in the order of the book.
\<close>

lemma upcoming_item_iff:
  assumes "upcoming_item today record = Inr x"
  shows "(x \<noteq> None) = upcoming_birthday today record"
    and "x = Some item \<Longrightarrow> dict_get item (lit ''name'') = Some (name record)"
  using assms
  by (auto simp: upcoming_item_def upcoming_birthday_def Let_def lit_def
      split: option.splits sum.splits if_splits)

lemma upcoming_loop_names:
  "upcoming_loop today rs acc = Inr res \<Longrightarrow>
     map (\<lambda>item. dict_get item (lit ''name'')) res
       = map (\<lambda>item. dict_get item (lit ''name'')) acc
         @ map (\<lambda>r. Some (name r)) (filter (upcoming_birthday today) rs)"
proof (induction rs arbitrary: acc)
  case Nil
  then show ?case by simp
next
  case (Cons r rs)
  from Cons.prems obtain x where x: "upcoming_item today r = Inr x"
    by (auto split: sum.splits)
  note i = upcoming_item_iff [OF x]
  show ?case
  proof (cases x)
    case None
    with Cons x i(1) show ?thesis by auto
  next
    case (Some item)
    with Cons.prems x have "upcoming_loop today rs (acc @ [item]) = Inr res" by simp
    from Cons.IH [OF this] Some i show ?thesis by auto
  qed
qed

lemma get_upcoming_birthdays_window:
  assumes "get_upcoming_birthdays today data = Inr upcoming"
  shows "map (\<lambda>item. dict_get item (lit ''name'')) upcoming
           = map (\<lambda>r. Some (name r)) (filter (upcoming_birthday today) (dict_values data))"
  using upcoming_loop_names [of today "dict_values data" "[]" upcoming] assms
  by (simp add: get_upcoming_birthdays_def)

text \<open>
  Claim C1 asks this of every book and every date. It fails on a book that holds a
  birthday on 29 February when the year of \<open>today\<close> is not a leap year: on 10.06.2025
  Bob's birthday (12 June) is two days away, and the function raises instead of
  listing him.
\<close>

theorem get_upcoming_birthdays_feb29_failing_input:
  "get_upcoming_birthdays \<lparr>year = 2025, month = 6, day = 10\<rparr>
     [(lit ''Ann'', \<lparr>name = lit ''Ann'', phones = [], birthday = Some (lit ''29.02.2024'')\<rparr>),
      (lit ''Bob'', \<lparr>name = lit ''Bob'', phones = [], birthday = Some (lit ''12.06.2000'')\<rparr>)]
   = Inl (ValueError ''day is out of range for month'')
   \<and> upcoming_birthday \<lparr>year = 2025, month = 6, day = 10\<rparr>
        \<lparr>name = lit ''Bob'', phones = [], birthday = Some (lit ''12.06.2000'')\<rparr>"
  by code_simp

end
